theory Spec2Isabelle
  imports Main "HOL-Library.Word"
begin

unbundle bit_operations_syntax

section \<open>Vulkan base types\<close>

text \<open>
  Handles are opaque; \<open>0\<close> is \<open>VK_NULL_HANDLE\<close>. \<open>VkResult\<close> and the other Vulkan
  enums are C ints; the named codes carry the values of the Vulkan headers.
\<close>

type_synonym u32 = "32 word"
type_synonym handle = nat
type_synonym VkResult = int

abbreviation (input) VK_NULL_HANDLE :: handle where "VK_NULL_HANDLE \<equiv> 0"

abbreviation (input) VK_SUCCESS :: VkResult where "VK_SUCCESS \<equiv> 0"
abbreviation (input) VK_SUBOPTIMAL_KHR :: VkResult where "VK_SUBOPTIMAL_KHR \<equiv> 1000001003"
abbreviation (input) VK_ERROR_OUT_OF_DATE_KHR :: VkResult where "VK_ERROR_OUT_OF_DATE_KHR \<equiv> - 1000001004"
abbreviation (input) VK_ERROR_OUT_OF_HOST_MEMORY :: VkResult where "VK_ERROR_OUT_OF_HOST_MEMORY \<equiv> - 1"
abbreviation (input) VK_ERROR_OUT_OF_DEVICE_MEMORY :: VkResult where "VK_ERROR_OUT_OF_DEVICE_MEMORY \<equiv> - 2"
abbreviation (input) VK_ERROR_DEVICE_LOST :: VkResult where "VK_ERROR_DEVICE_LOST \<equiv> - 4"

abbreviation (input) VK_FENCE_CREATE_SIGNALED_BIT :: u32 where "VK_FENCE_CREATE_SIGNALED_BIT \<equiv> 1"

type_synonym VkFormat = int
type_synonym VkColorSpaceKHR = int
type_synonym VkPresentModeKHR = int

abbreviation (input) VK_FORMAT_UNDEFINED :: VkFormat where "VK_FORMAT_UNDEFINED \<equiv> 0"
abbreviation (input) VK_FORMAT_B8G8R8A8_SRGB :: VkFormat where "VK_FORMAT_B8G8R8A8_SRGB \<equiv> 50"
abbreviation (input) VK_COLOR_SPACE_SRGB_NONLINEAR_KHR :: VkColorSpaceKHR where
  "VK_COLOR_SPACE_SRGB_NONLINEAR_KHR \<equiv> 0"
abbreviation (input) VK_PRESENT_MODE_IMMEDIATE_KHR :: VkPresentModeKHR where
  "VK_PRESENT_MODE_IMMEDIATE_KHR \<equiv> 0"
abbreviation (input) VK_PRESENT_MODE_MAILBOX_KHR :: VkPresentModeKHR where
  "VK_PRESENT_MODE_MAILBOX_KHR \<equiv> 1"
abbreviation (input) VK_PRESENT_MODE_FIFO_KHR :: VkPresentModeKHR where
  "VK_PRESENT_MODE_FIFO_KHR \<equiv> 2"
abbreviation (input) VK_COMMAND_BUFFER_USAGE_ONE_TIME_SUBMIT_BIT :: u32 where
  "VK_COMMAND_BUFFER_USAGE_ONE_TIME_SUBMIT_BIT \<equiv> 1"
abbreviation (input) UINT32_MAX :: u32 where "UINT32_MAX \<equiv> 4294967295"

record VkSurfaceFormatKHR =
  format :: VkFormat
  colorSpace :: VkColorSpaceKHR

record VkExtent2D =
  width :: u32
  height :: u32

text \<open>The fields of \<open>VkSurfaceCapabilitiesKHR\<close> that swapchain.c reads.\<close>

record VkSurfaceCapabilitiesKHR =
  minImageCount :: u32
  maxImageCount :: u32
  currentExtent :: VkExtent2D
  minImageExtent :: VkExtent2D
  maxImageExtent :: VkExtent2D

text \<open>
  \<open>ve_swapchain_support\<close> (vulkan_core.h): each array with its count is a list; a NULL
  array or a zero count is the empty list.
\<close>

record ve_swapchain_support =
  capabilities :: VkSurfaceCapabilitiesKHR
  formats :: "VkSurfaceFormatKHR list"
  present_modes :: "VkPresentModeKHR list"

abbreviation (input) VE_MAX_FRAMES_IN_FLIGHT :: nat where "VE_MAX_FRAMES_IN_FLIGHT \<equiv> 3"

section \<open>assert.h / assert.c\<close>

datatype ve_assert_mode =
    VE_ASSERT_MODE_DEBUG_BREAK
  | VE_ASSERT_MODE_LOG_AND_CONTINUE
  | VE_ASSERT_MODE_LOG_AND_EXIT
  | VE_ASSERT_MODE_CALLBACK

text \<open>
  The two globals of assert.c. The callback is a C function of the assert info; the model
  keeps the answer it gives (\<open>None\<close> is the NULL callback).
\<close>

record assert_state =
  g_assert_mode :: ve_assert_mode
  g_assert_callback :: "bool option"

text \<open>
  \<open>ve_assert_handle\<close> returns \<open>should_continue\<close>. \<open>debug_break\<close> raises SIGTRAP or
  ends the process; where it returns, \<open>should_continue\<close> is false all the same.
\<close>

fun ve_assert_handle :: "assert_state \<Rightarrow> bool" where
  "ve_assert_handle a =
     (case g_assert_mode a of
        VE_ASSERT_MODE_DEBUG_BREAK \<Rightarrow> False
      | VE_ASSERT_MODE_LOG_AND_CONTINUE \<Rightarrow> True
      | VE_ASSERT_MODE_LOG_AND_EXIT \<Rightarrow> False
      | VE_ASSERT_MODE_CALLBACK \<Rightarrow>
          (case g_assert_callback a of Some b \<Rightarrow> b | None \<Rightarrow> False))"

text \<open>
  How a call can end without returning: \<open>ve_assert_fatal\<close> aborts the process
  (\<open>AssertFatal\<close>); the other faults are undefined behaviour of the C code that the
  model stops at.
\<close>

datatype fault = AssertFatal | NullDeref | OutOfBoundsRead | FloatCastOutOfRange

text \<open>
  \<open>VE_ASSERT(expr)\<close>: nothing happens when \<open>expr\<close> holds; otherwise the handler runs and
  the process aborts unless the handler says to continue.
\<close>

definition VE_ASSERT :: "assert_state \<Rightarrow> bool \<Rightarrow> bool" where
  "VE_ASSERT a expr = (expr \<or> ve_assert_handle a)"

section \<open>The device and the driver\<close>

datatype vk_object = Fence bool | Semaphore | ImageView | Framebuffer | Swapchain

text \<open>
  What the renderer modules see of \<open>g_vulkan_context\<close> and of the Vulkan driver behind it:
  the context's handles and frame index, the objects alive on the device (a fence carries
  its signaled state), the number of handles issued so far (a new object gets the next one,
  never 0), the results the driver will give to the coming fallible calls in call order
  (success once the list is used up), whether the coming host allocations succeed
  (\<open>malloc\<close> inside \<open>ve_allocate\<close>), the host blocks that \<open>ve_allocate\<close> has handed
  out and \<open>ve_free\<close> has not taken back (by address; a new block gets the next address,
  never 0), the indeterminate content of freshly allocated memory, the device's extension
  names, what the surface supports, and the images the driver makes for a new swapchain.
\<close>

record vk_world =
  vk_device :: handle
  vk_physical_device :: handle
  vk_surface :: handle
  vk_current_frame :: u32
  objects :: "handle \<rightharpoonup> vk_object"
  handles_issued :: nat
  driver_results :: "VkResult list"
  alloc_results :: "bool list"
  host_blocks :: "nat set"
  blocks_issued :: nat
  junk :: handle
  device_extensions :: "string list"
  surface_support :: ve_swapchain_support
  driver_images :: "handle list"

definition next_result :: "vk_world \<Rightarrow> VkResult \<times> vk_world" where
  "next_result w =
     (case driver_results w of
        [] \<Rightarrow> (VK_SUCCESS, w)
      | r # rs \<Rightarrow> (r, w\<lparr>driver_results := rs\<rparr>))"

text \<open>
  A \<open>vkCreate*\<close> call: on \<open>VK_SUCCESS\<close> a new object with a fresh handle, written through
  the out-pointer; on any other result no object, and the out-pointer keeps \<open>old\<close>.
\<close>

definition vk_create :: "vk_object \<Rightarrow> handle \<Rightarrow> vk_world \<Rightarrow> VkResult \<times> handle \<times> vk_world" where
  "vk_create obj old w =
     (case next_result w of (r, w1) \<Rightarrow>
        if r = VK_SUCCESS
        then (r, Suc (handles_issued w1),
              w1\<lparr>objects := (objects w1)(Suc (handles_issued w1) \<mapsto> obj),
                 handles_issued := Suc (handles_issued w1)\<rparr>)
        else (r, old, w1))"

text \<open>A \<open>vkDestroy*\<close> call; destroying \<open>VK_NULL_HANDLE\<close> does nothing.\<close>

definition vk_destroy :: "handle \<Rightarrow> vk_world \<Rightarrow> vk_world" where
  "vk_destroy h w = (if h = VK_NULL_HANDLE then w else w\<lparr>objects := (objects w)(h := None)\<rparr>)"

definition vkCreateFence :: "u32 \<Rightarrow> handle \<Rightarrow> vk_world \<Rightarrow> VkResult \<times> handle \<times> vk_world" where
  "vkCreateFence flags old w =
     vk_create (Fence (flags AND VK_FENCE_CREATE_SIGNALED_BIT \<noteq> 0)) old w"

text \<open>
  \<open>ve_allocate\<close> (memory.c): NULL for size 0 and when \<open>malloc\<close> fails, and otherwise
  a new block. The result is the block's address, 0 for NULL.
\<close>

definition new_block :: "vk_world \<Rightarrow> nat \<times> vk_world" where
  "new_block w =
     (Suc (blocks_issued w),
      w\<lparr>host_blocks := insert (Suc (blocks_issued w)) (host_blocks w),
        blocks_issued := Suc (blocks_issued w)\<rparr>)"

definition ve_allocate :: "nat \<Rightarrow> vk_world \<Rightarrow> nat \<times> vk_world" where
  "ve_allocate sz w =
     (if sz = 0 then (0, w)
      else (case alloc_results w of
              [] \<Rightarrow> new_block w
            | ok # rest \<Rightarrow>
                if ok then new_block (w\<lparr>alloc_results := rest\<rparr>)
                else (0, w\<lparr>alloc_results := rest\<rparr>)))"

text \<open>\<open>ve_free\<close> (memory.c): nothing for NULL; otherwise the block is given back.\<close>

definition ve_free :: "nat \<Rightarrow> vk_world \<Rightarrow> vk_world" where
  "ve_free addr w = (if addr = 0 then w else w\<lparr>host_blocks := host_blocks w - {addr}\<rparr>)"

section \<open>sync.h / sync.c\<close>

record ve_frame_sync =
  render_fence :: handle
  compute_fence :: handle
  transfer_fence :: handle
  image_available :: handle
  render_finished :: handle
  compute_finished :: handle
  transfer_finished :: handle

record ve_sync_state =
  frames :: "ve_frame_sync list"
  current_frame :: u32
  timeline_semaphores :: bool

text \<open>The state after \<open>memset(&g_sync_state, 0, ...)\<close>, also the static initialiser.\<close>

definition frame_zero :: ve_frame_sync where
  "frame_zero = \<lparr>render_fence = 0, compute_fence = 0, transfer_fence = 0,
                 image_available = 0, render_finished = 0, compute_finished = 0,
                 transfer_finished = 0\<rparr>"

definition sync_zero :: ve_sync_state where
  "sync_zero = \<lparr>frames = replicate VE_MAX_FRAMES_IN_FLIGHT frame_zero,
                current_frame = 0, timeline_semaphores = False\<rparr>"

text \<open>
  \<open>ve_sync_supports_timeline\<close>: looks for the extension name among the device extensions,
  in a host array that is allocated first (260 bytes per entry) and freed at the end.
\<close>

definition ve_sync_supports_timeline :: "vk_world \<Rightarrow> bool \<times> vk_world" where
  "ve_sync_supports_timeline w =
     (if vk_physical_device w = VK_NULL_HANDLE then (False, w)
      else (case ve_allocate (length (device_extensions w) * 260) w of (extensions, w1) \<Rightarrow>
              if extensions = 0 then (False, w1)
              else (''VK_KHR_timeline_semaphore'' \<in> set (device_extensions w1),
                    ve_free extensions w1)))"

text \<open>
  \<open>ve_sync_create_semaphore\<close>: the local handle starts as NULL and is returned whatever
  the result. (Its own assertion on the device is the one \<open>ve_sync_init\<close> has passed; the
  debug name is not modelled.)
\<close>

definition ve_sync_create_semaphore :: "vk_world \<Rightarrow> handle \<times> vk_world" where
  "ve_sync_create_semaphore w =
     (case vk_create Semaphore VK_NULL_HANDLE w of (r, h, w1) \<Rightarrow> (h, w1))"

definition ve_sync_destroy_semaphore :: "handle \<Rightarrow> vk_world \<Rightarrow> vk_world" where
  "ve_sync_destroy_semaphore semaphore w =
     (if vk_device w = VK_NULL_HANDLE \<or> semaphore = VK_NULL_HANDLE then w
      else vk_destroy semaphore w)"

text \<open>One round of the loop of \<open>ve_sync_shutdown\<close>, for the slot \<open>f\<close>.\<close>

definition sync_shutdown_frame :: "ve_frame_sync \<Rightarrow> vk_world \<Rightarrow> vk_world" where
  "sync_shutdown_frame f w =
     (let w1 = (if render_fence f \<noteq> VK_NULL_HANDLE then vk_destroy (render_fence f) w else w);
          w2 = (if compute_fence f \<noteq> VK_NULL_HANDLE then vk_destroy (compute_fence f) w1 else w1);
          w3 = (if transfer_fence f \<noteq> VK_NULL_HANDLE then vk_destroy (transfer_fence f) w2 else w2);
          w4 = ve_sync_destroy_semaphore (image_available f) w3;
          w5 = ve_sync_destroy_semaphore (render_finished f) w4;
          w6 = ve_sync_destroy_semaphore (compute_finished f) w5
      in ve_sync_destroy_semaphore (transfer_finished f) w6)"

text \<open>
  \<open>ve_sync_shutdown\<close>: nothing without a device; otherwise every slot's primitives are
  destroyed and the whole state is zeroed (which covers the fence fields the loop nulls).
\<close>

definition ve_sync_shutdown :: "ve_sync_state \<times> vk_world \<Rightarrow> ve_sync_state \<times> vk_world" where
  "ve_sync_shutdown sw =
     (case sw of (s, w) \<Rightarrow>
        if vk_device w = VK_NULL_HANDLE then (s, w)
        else (sync_zero,
              fold (\<lambda>i. sync_shutdown_frame (frames s ! i)) [0..<VE_MAX_FRAMES_IN_FLIGHT] w))"

text \<open>
  The body of the loop of \<open>ve_sync_init\<close> on the slot \<open>f\<close>: the result is \<open>VK_SUCCESS\<close>
  when the round completes, and otherwise the code the function is about to return, with
  the slot as written so far.
\<close>

definition sync_init_frame :: "ve_frame_sync \<Rightarrow> vk_world \<Rightarrow> VkResult \<times> ve_frame_sync \<times> vk_world" where
  "sync_init_frame f w =
     (case vkCreateFence VK_FENCE_CREATE_SIGNALED_BIT (render_fence f) w of (r1, h1, w1) \<Rightarrow>
      let f1 = f\<lparr>render_fence := h1\<rparr> in
      if r1 \<noteq> VK_SUCCESS then (r1, f1, w1)
      else
     (case vkCreateFence VK_FENCE_CREATE_SIGNALED_BIT (compute_fence f1) w1 of (r2, h2, w2) \<Rightarrow>
      let f2 = f1\<lparr>compute_fence := h2\<rparr> in
      if r2 \<noteq> VK_SUCCESS then (r2, f2, w2)
      else
     (case vkCreateFence VK_FENCE_CREATE_SIGNALED_BIT (transfer_fence f2) w2 of (r3, h3, w3) \<Rightarrow>
      let f3 = f2\<lparr>transfer_fence := h3\<rparr> in
      if r3 \<noteq> VK_SUCCESS then (r3, f3, w3)
      else
     (case ve_sync_create_semaphore w3 of (s1, w4) \<Rightarrow>
      case ve_sync_create_semaphore w4 of (s2, w5) \<Rightarrow>
      case ve_sync_create_semaphore w5 of (s3, w6) \<Rightarrow>
      case ve_sync_create_semaphore w6 of (s4, w7) \<Rightarrow>
      let f7 = f3\<lparr>image_available := s1, render_finished := s2,
                   compute_finished := s3, transfer_finished := s4\<rparr> in
      if s1 = VK_NULL_HANDLE \<or> s2 = VK_NULL_HANDLE \<or> s3 = VK_NULL_HANDLE \<or> s4 = VK_NULL_HANDLE
      then (VK_ERROR_OUT_OF_DEVICE_MEMORY, f7, w7)
      else (VK_SUCCESS, f7, w7)))))"

text \<open>
  The loop of \<open>ve_sync_init\<close> from slot \<open>i\<close> on: a failed round calls
  \<open>ve_sync_shutdown\<close> and returns its code.
\<close>

function sync_init_loop :: "nat \<Rightarrow> ve_sync_state \<times> vk_world \<Rightarrow> VkResult \<times> ve_sync_state \<times> vk_world" where
  "sync_init_loop i sw =
     (if i < VE_MAX_FRAMES_IN_FLIGHT
      then (case sync_init_frame (frames (fst sw) ! i) (snd sw) of (r, f, w1) \<Rightarrow>
              let s1 = (fst sw)\<lparr>frames := (frames (fst sw))[i := f]\<rparr> in
              if r \<noteq> VK_SUCCESS then (r, ve_sync_shutdown (s1, w1))
              else sync_init_loop (Suc i) (s1, w1))
      else (VK_SUCCESS, sw))"
  by pat_completeness auto
termination
  by (relation "measure (\<lambda>(i, sw). VE_MAX_FRAMES_IN_FLIGHT - i)") auto

declare sync_init_loop.simps [simp del]

text \<open>
  \<open>ve_sync_init\<close>. When the assertion on the device fails and the handler continues, the
  first \<open>vkCreateFence\<close> is called on a NULL device.
\<close>

definition ve_sync_init :: "assert_state \<Rightarrow> ve_sync_state \<times> vk_world \<Rightarrow> fault + (VkResult \<times> ve_sync_state \<times> vk_world)" where
  "ve_sync_init a sw =
     (case sw of (s, w) \<Rightarrow>
        if \<not> VE_ASSERT a (vk_device w \<noteq> VK_NULL_HANDLE) then Inl AssertFatal
        else if vk_device w = VK_NULL_HANDLE then Inl NullDeref
        else (case ve_sync_supports_timeline w of (timeline, w1) \<Rightarrow>
                Inr (sync_init_loop 0 (sync_zero\<lparr>timeline_semaphores := timeline\<rparr>, w1))))"

text \<open>\<open>ve_sync_get_frame\<close>: the address of a slot is its index; \<open>None\<close> is NULL.\<close>

definition ve_sync_get_frame :: "u32 \<Rightarrow> nat option" where
  "ve_sync_get_frame frame_index =
     (if unat frame_index \<ge> VE_MAX_FRAMES_IN_FLIGHT then None else Some (unat frame_index))"

definition ve_sync_advance_frame :: "ve_sync_state \<Rightarrow> ve_sync_state" where
  "ve_sync_advance_frame s = s\<lparr>current_frame := (current_frame s + 1) mod 3\<rparr>"

definition ve_sync_get_current_frame_index :: "ve_sync_state \<Rightarrow> u32" where
  "ve_sync_get_current_frame_index s = current_frame s"

section \<open>vulkan_core.c: the context's frame index\<close>

definition ve_vulkan_get_current_frame :: "vk_world \<Rightarrow> u32" where
  "ve_vulkan_get_current_frame w = vk_current_frame w"

definition ve_vulkan_advance_frame :: "vk_world \<Rightarrow> vk_world" where
  "ve_vulkan_advance_frame w = w\<lparr>vk_current_frame := (vk_current_frame w + 1) mod 3\<rparr>"

section \<open>swapchain.h / swapchain.c\<close>

record ve_swapchain_config =
  config_width :: u32
  config_height :: u32
  vsync :: bool
  triple_buffering :: bool
  preferred_format :: VkSurfaceFormatKHR
  preferred_present_mode :: VkPresentModeKHR
  additional_usage :: u32

text \<open>
  A pointer to an array of handles: \<open>None\<close> when NULL, and otherwise the address of the
  host block together with the array stored there.
\<close>

type_synonym array_ptr = "(nat \<times> handle list) option"

text \<open>
  \<open>g_swapchain\<close> together with the second static of swapchain.c, \<open>g_owns_framebuffers\<close>.
  The C field \<open>format\<close> is \<open>swapchain_format\<close> here.
\<close>

record ve_swapchain =
  swapchain :: handle
  images :: array_ptr
  image_views :: array_ptr
  framebuffers :: array_ptr
  swapchain_format :: VkFormat
  extent :: VkExtent2D
  image_count :: u32
  current_image_index :: u32
  out_of_date :: bool
  g_owns_framebuffers :: bool

subsection \<open>Choosing format, present mode and extent\<close>

text \<open>
  \<open>ve_swapchain_choose_surface_format\<close>: each \<open>for\<close> loop returns the first element that
  matches, which is \<open>find\<close>. With an empty array, a handler that continues lets the code
  read \<open>formats[0]\<close>.
\<close>

definition ve_swapchain_choose_surface_format ::
    "assert_state \<Rightarrow> VkSurfaceFormatKHR list \<Rightarrow> VkSurfaceFormatKHR option \<Rightarrow> fault + VkSurfaceFormatKHR" where
  "ve_swapchain_choose_surface_format a fmts preferred =
     (if \<not> VE_ASSERT a (fmts \<noteq> []) then Inl AssertFatal
      else
        (case (case preferred of
                 None \<Rightarrow> None
               | Some p \<Rightarrow> find (\<lambda>f. format f = format p \<and> colorSpace f = colorSpace p) fmts) of
           Some f \<Rightarrow> Inr f
         | None \<Rightarrow>
             (case find (\<lambda>f. format f = VK_FORMAT_B8G8R8A8_SRGB \<and>
                             colorSpace f = VK_COLOR_SPACE_SRGB_NONLINEAR_KHR) fmts of
                Some f \<Rightarrow> Inr f
              | None \<Rightarrow> (case fmts of [] \<Rightarrow> Inl OutOfBoundsRead | f # _ \<Rightarrow> Inr f))))"

definition ve_swapchain_choose_present_mode ::
    "assert_state \<Rightarrow> VkPresentModeKHR list \<Rightarrow> bool \<Rightarrow> bool \<Rightarrow> fault + VkPresentModeKHR" where
  "ve_swapchain_choose_present_mode a modes vsync_on triple =
     (if \<not> VE_ASSERT a (modes \<noteq> []) then Inl AssertFatal
      else
        (case (if triple \<and> \<not> vsync_on
               then find (\<lambda>m. m = VK_PRESENT_MODE_MAILBOX_KHR) modes else None) of
           Some m \<Rightarrow> Inr m
         | None \<Rightarrow>
             (case (if \<not> vsync_on
                    then find (\<lambda>m. m = VK_PRESENT_MODE_IMMEDIATE_KHR) modes else None) of
                Some m \<Rightarrow> Inr m
              | None \<Rightarrow> Inr VK_PRESENT_MODE_FIFO_KHR)))"

text \<open>
  \<open>ve_swapchain_choose_extent\<close> clamps in single precision. \<open>(float)x\<close> of a 32-bit
  unsigned \<open>x\<close> is \<open>x\<close> rounded to 24 significant bits, to nearest and to even on a tie
  (IEEE 754, the default rounding); the value is again a natural number. \<open>fminf\<close> and
  \<open>fmaxf\<close> of two such values are \<open>min\<close> and \<open>max\<close>. The cast back to \<open>uint32_t\<close>
  is exact for a value below \<open>2^32\<close> and undefined from there on.
\<close>

fun bit_length :: "nat \<Rightarrow> nat" where
  "bit_length n = (if n = 0 then 0 else Suc (bit_length (n div 2)))"

declare bit_length.simps [simp del]

definition float_of_u32 :: "u32 \<Rightarrow> nat" where
  "float_of_u32 x =
     (let n = unat x in
      if n < 2 ^ 24 then n
      else (let e = bit_length n - 24;
                q = n div 2 ^ e;
                r = n mod 2 ^ e;
                half = 2 ^ (e - 1)
            in (if half < r \<or> (r = half \<and> odd q) then q + 1 else q) * 2 ^ e))"

definition u32_of_float :: "nat \<Rightarrow> fault + u32" where
  "u32_of_float v = (if v < 2 ^ 32 then Inr (of_nat v) else Inl FloatCastOutOfRange)"

definition clamp_float :: "u32 \<Rightarrow> u32 \<Rightarrow> u32 \<Rightarrow> fault + u32" where
  "clamp_float lo hi x =
     u32_of_float (max (float_of_u32 lo) (min (float_of_u32 hi) (float_of_u32 x)))"

text \<open>The caller passes the address of a capabilities struct, so the assertion holds.\<close>

definition ve_swapchain_choose_extent ::
    "VkSurfaceCapabilitiesKHR \<Rightarrow> u32 \<Rightarrow> u32 \<Rightarrow> fault + VkExtent2D" where
  "ve_swapchain_choose_extent caps w h =
     (if width (currentExtent caps) \<noteq> UINT32_MAX then Inr (currentExtent caps)
      else
        (case clamp_float (width (minImageExtent caps)) (width (maxImageExtent caps)) w of
           Inl e \<Rightarrow> Inl e
         | Inr ew \<Rightarrow>
             (case clamp_float (height (minImageExtent caps)) (height (maxImageExtent caps)) h of
                Inl e \<Rightarrow> Inl e
              | Inr eh \<Rightarrow> Inr \<lparr>width = ew, height = eh\<rparr>)))"

subsection \<open>Acquire and present\<close>

text \<open>
  \<open>ve_swapchain_acquire_next_image\<close>; \<open>drv\<close> is the result of \<open>vkAcquireNextImageKHR\<close> and
  \<open>idx\<close> the image index it gives, written when it gives one. When the assertion on the
  device fails and the handler continues, the driver is called on a NULL device.
\<close>

definition ve_swapchain_acquire_next_image ::
    "assert_state \<Rightarrow> vk_world \<Rightarrow> VkResult \<Rightarrow> u32 \<Rightarrow> ve_swapchain \<Rightarrow> fault + (VkResult \<times> ve_swapchain)" where
  "ve_swapchain_acquire_next_image a w drv idx sc =
     (if \<not> VE_ASSERT a (vk_device w \<noteq> VK_NULL_HANDLE) then Inl AssertFatal
      else if vk_device w = VK_NULL_HANDLE then Inl NullDeref
      else
        (let sc1 = (if drv = VK_SUCCESS \<or> drv = VK_SUBOPTIMAL_KHR
                    then sc\<lparr>current_image_index := idx\<rparr> else sc)
         in if drv = VK_ERROR_OUT_OF_DATE_KHR
            then Inr (VK_SUBOPTIMAL_KHR, sc1\<lparr>out_of_date := True\<rparr>)
            else if drv = VK_SUBOPTIMAL_KHR
            then Inr (VK_SUCCESS, sc1\<lparr>out_of_date := True\<rparr>)
            else Inr (drv, sc1)))"

text \<open>\<open>ve_swapchain_present\<close>; \<open>drv\<close> is the result of \<open>vkQueuePresentKHR\<close>.\<close>

definition ve_swapchain_present ::
    "assert_state \<Rightarrow> vk_world \<Rightarrow> VkResult \<Rightarrow> ve_swapchain \<Rightarrow> fault + (VkResult \<times> ve_swapchain)" where
  "ve_swapchain_present a w drv sc =
     (if \<not> VE_ASSERT a (vk_device w \<noteq> VK_NULL_HANDLE) then Inl AssertFatal
      else if vk_device w = VK_NULL_HANDLE then Inl NullDeref
      else if drv = VK_ERROR_OUT_OF_DATE_KHR \<or> drv = VK_SUBOPTIMAL_KHR
      then Inr (drv, sc\<lparr>out_of_date := True\<rparr>)
      else Inr (drv, sc\<lparr>out_of_date := False\<rparr>))"

definition ve_swapchain_is_out_of_date :: "ve_swapchain \<Rightarrow> bool" where
  "ve_swapchain_is_out_of_date sc = out_of_date sc"

subsection \<open>Image views and framebuffers\<close>

text \<open>Reading \<open>arr[i]\<close> through a pointer that may be NULL, into an array of known size.\<close>

definition read_array :: "array_ptr \<Rightarrow> nat \<Rightarrow> fault + handle" where
  "read_array arr i =
     (case arr of
        None \<Rightarrow> Inl NullDeref
      | Some (addr, xs) \<Rightarrow> if i < length xs then Inr (xs ! i) else Inl OutOfBoundsRead)"

text \<open>
  The loops \<open>for (i = 0; i < n; i++) if (arr[i] != VK_NULL_HANDLE) vkDestroy...(arr[i])\<close>.
\<close>

definition destroy_all :: "nat \<Rightarrow> handle list \<Rightarrow> vk_world \<Rightarrow> fault + vk_world" where
  "destroy_all n xs w =
     (if n \<le> length xs then Inr (fold vk_destroy (take n xs) w) else Inl OutOfBoundsRead)"

text \<open>
  The loop of \<open>ve_swapchain_create_image_views\<close> from image \<open>i\<close> on. A failed
  \<open>vkCreateImageView\<close> destroys the views \<open>0..i-1\<close>, frees the array and nulls the pointer.
\<close>

function create_image_views_loop ::
    "nat \<Rightarrow> ve_swapchain \<times> vk_world \<Rightarrow> fault + (VkResult \<times> ve_swapchain \<times> vk_world)" where
  "create_image_views_loop i scw =
     (if i < unat (image_count (fst scw))
      then (case read_array (images (fst scw)) i of
              Inl e \<Rightarrow> Inl e
            | Inr img \<Rightarrow>
                (case image_views (fst scw) of
                   None \<Rightarrow> Inl NullDeref
                 | Some (addr, views) \<Rightarrow>
                     if length views \<le> i then Inl OutOfBoundsRead
                     else (case vk_create ImageView (views ! i) (snd scw) of (r, h, w1) \<Rightarrow>
                             if r \<noteq> VK_SUCCESS
                             then Inr (r, (fst scw)\<lparr>image_views := None\<rparr>,
                                       ve_free addr
                                         (fold vk_destroy (take i (views[i := h])) w1))
                             else create_image_views_loop (Suc i)
                                    ((fst scw)\<lparr>image_views := Some (addr, views[i := h])\<rparr>,
                                     w1))))
      else Inr (VK_SUCCESS, scw))"
  by pat_completeness auto
termination
  by (relation "measure (\<lambda>(i, scw). unat (image_count (fst scw)) - i)") auto

declare create_image_views_loop.simps [simp del]

text \<open>
  \<open>ve_swapchain_create_image_views\<close>: the array has \<open>image_count\<close> entries of 8 bytes and
  starts with indeterminate content.
\<close>

definition ve_swapchain_create_image_views ::
    "assert_state \<Rightarrow> ve_swapchain \<times> vk_world \<Rightarrow> fault + (VkResult \<times> ve_swapchain \<times> vk_world)" where
  "ve_swapchain_create_image_views a scw =
     (case scw of (sc, w) \<Rightarrow>
        if \<not> VE_ASSERT a (vk_device w \<noteq> VK_NULL_HANDLE) then Inl AssertFatal
        else if vk_device w = VK_NULL_HANDLE then Inl NullDeref
        else (case ve_allocate (unat (image_count sc) * 8) w of (addr, w1) \<Rightarrow>
                if addr = 0
                then Inr (VK_ERROR_OUT_OF_HOST_MEMORY, sc\<lparr>image_views := None\<rparr>, w1)
                else create_image_views_loop 0
                       (sc\<lparr>image_views :=
                             Some (addr, replicate (unat (image_count sc)) (junk w1))\<rparr>,
                        w1)))"

text \<open>The loop of \<open>ve_swapchain_create_framebuffers\<close> from image \<open>i\<close> on.\<close>

function create_framebuffers_loop ::
    "nat \<Rightarrow> ve_swapchain \<times> vk_world \<Rightarrow> fault + (VkResult \<times> ve_swapchain \<times> vk_world)" where
  "create_framebuffers_loop i scw =
     (if i < unat (image_count (fst scw))
      then (case read_array (image_views (fst scw)) i of
              Inl e \<Rightarrow> Inl e
            | Inr view \<Rightarrow>
                (case framebuffers (fst scw) of
                   None \<Rightarrow> Inl NullDeref
                 | Some (addr, fbs) \<Rightarrow>
                     if length fbs \<le> i then Inl OutOfBoundsRead
                     else (case vk_create Framebuffer (fbs ! i) (snd scw) of (r, h, w1) \<Rightarrow>
                             if r \<noteq> VK_SUCCESS
                             then Inr (r, (fst scw)\<lparr>framebuffers := None\<rparr>,
                                       ve_free addr
                                         (fold vk_destroy (take i (fbs[i := h])) w1))
                             else create_framebuffers_loop (Suc i)
                                    ((fst scw)\<lparr>framebuffers := Some (addr, fbs[i := h])\<rparr>,
                                     w1))))
      else Inr (VK_SUCCESS, scw))"
  by pat_completeness auto
termination
  by (relation "measure (\<lambda>(i, scw). unat (image_count (fst scw)) - i)") auto

declare create_framebuffers_loop.simps [simp del]

text \<open>
  The block \<open>if (g_owns_framebuffers && g_swapchain.framebuffers) ...\<close> that opens both
  \<open>ve_swapchain_create_framebuffers\<close> and \<open>ve_swapchain_set_framebuffers\<close>: framebuffers
  the module owns are destroyed and their array is freed.
\<close>

definition release_owned_framebuffers :: "ve_swapchain \<Rightarrow> vk_world \<Rightarrow> fault + vk_world" where
  "release_owned_framebuffers sc w =
     (case framebuffers sc of
        Some (addr, fbs) \<Rightarrow>
          if g_owns_framebuffers sc
          then map_sum id (ve_free addr) (destroy_all (unat (image_count sc)) fbs w)
          else Inr w
      | None \<Rightarrow> Inr w)"

text \<open>
  \<open>ve_swapchain_create_framebuffers\<close>. A NULL render pass that gets past the assertion
  reaches the driver.
\<close>

definition ve_swapchain_create_framebuffers ::
    "assert_state \<Rightarrow> handle \<Rightarrow> handle \<Rightarrow> ve_swapchain \<times> vk_world \<Rightarrow>
     fault + (VkResult \<times> ve_swapchain \<times> vk_world)" where
  "ve_swapchain_create_framebuffers a render_pass depth_view scw =
     (case scw of (sc, w) \<Rightarrow>
        if \<not> VE_ASSERT a (vk_device w \<noteq> VK_NULL_HANDLE) then Inl AssertFatal
        else if vk_device w = VK_NULL_HANDLE then Inl NullDeref
        else if \<not> VE_ASSERT a (render_pass \<noteq> VK_NULL_HANDLE) then Inl AssertFatal
        else if render_pass = VK_NULL_HANDLE then Inl NullDeref
        else
          (case release_owned_framebuffers sc w of
             Inl e \<Rightarrow> Inl e
           | Inr w1 \<Rightarrow>
               (case ve_allocate (unat (image_count sc) * 8) w1 of (addr, w2) \<Rightarrow>
                  if addr = 0
                  then Inr (VK_ERROR_OUT_OF_HOST_MEMORY, sc\<lparr>framebuffers := None\<rparr>, w2)
                  else create_framebuffers_loop 0
                         (sc\<lparr>framebuffers :=
                               Some (addr, replicate (unat (image_count sc)) (junk w2)),
                             g_owns_framebuffers := True\<rparr>, w2))))"

text \<open>\<open>ve_swapchain_set_framebuffers\<close>: the caller's array replaces the module's.\<close>

definition ve_swapchain_set_framebuffers ::
    "array_ptr \<Rightarrow> u32 \<Rightarrow> bool \<Rightarrow> ve_swapchain \<times> vk_world \<Rightarrow> fault + (ve_swapchain \<times> vk_world)" where
  "ve_swapchain_set_framebuffers fbs_new cnt owns scw =
     (case scw of (sc, w) \<Rightarrow>
        (case release_owned_framebuffers sc w of
           Inl e \<Rightarrow> Inl e
         | Inr w1 \<Rightarrow>
             Inr (sc\<lparr>framebuffers := fbs_new, image_count := cnt, g_owns_framebuffers := owns\<rparr>,
                  w1)))"

subsection \<open>Create, destroy, recreate\<close>

text \<open>
  \<open>ve_swapchain_destroy\<close>: the framebuffers are destroyed only if the module owns them,
  but each of the three arrays is freed. The out-of-date flag is not among the fields it
  resets.
\<close>

definition ve_swapchain_destroy ::
    "ve_swapchain \<times> vk_world \<Rightarrow> fault + (ve_swapchain \<times> vk_world)" where
  "ve_swapchain_destroy scw =
     (case scw of (sc, w) \<Rightarrow>
        (case (case framebuffers sc of
                 Some (addr, fbs) \<Rightarrow>
                   map_sum id (ve_free addr)
                     (if g_owns_framebuffers sc then destroy_all (unat (image_count sc)) fbs w
                      else Inr w)
               | None \<Rightarrow> Inr w) of
           Inl e \<Rightarrow> Inl e
         | Inr w1 \<Rightarrow>
             (case (case image_views sc of
                      Some (addr, views) \<Rightarrow>
                        map_sum id (ve_free addr) (destroy_all (unat (image_count sc)) views w1)
                    | None \<Rightarrow> Inr w1) of
                Inl e \<Rightarrow> Inl e
              | Inr w2 \<Rightarrow>
                  Inr (sc\<lparr>framebuffers := None, image_views := None, images := None,
                          swapchain := VK_NULL_HANDLE, image_count := 0,
                          current_image_index := 0\<rparr>,
                       vk_destroy (swapchain sc)
                         (case images sc of
                            Some (addr, imgs) \<Rightarrow> ve_free addr w2
                          | None \<Rightarrow> w2)))))"

text \<open>
  \<open>ve_vulkan_query_swapchain_support\<close> (vulkan_core.c): what the driver reports for the
  surface, and zeroed details without a surface. Its host allocations are not modelled.
\<close>

definition ve_vulkan_query_swapchain_support :: "vk_world \<Rightarrow> ve_swapchain_support" where
  "ve_vulkan_query_swapchain_support w =
     (if vk_surface w = VK_NULL_HANDLE
      then \<lparr>capabilities =
              \<lparr>minImageCount = 0, maxImageCount = 0,
                 currentExtent = \<lparr>width = 0, height = 0\<rparr>,
                 minImageExtent = \<lparr>width = 0, height = 0\<rparr>,
                 maxImageExtent = \<lparr>width = 0, height = 0\<rparr>\<rparr>,
            formats = [], present_modes = []\<rparr>
      else surface_support w)"

text \<open>The image count \<open>ve_swapchain_create\<close> asks for, in 32-bit arithmetic.\<close>

definition requested_image_count :: "VkSurfaceCapabilitiesKHR \<Rightarrow> u32" where
  "requested_image_count caps =
     (let n = minImageCount caps + 1
      in if maxImageCount caps > 0 \<and> n > maxImageCount caps then maxImageCount caps else n)"

text \<open>
  \<open>ve_swapchain_create\<close> after the choices are made: the swapchain object, its images
  (the array for them is not checked for NULL), the image views, and only then the flag.
\<close>

definition swapchain_build ::
    "assert_state \<Rightarrow> VkSurfaceFormatKHR \<Rightarrow> VkExtent2D \<Rightarrow> ve_swapchain \<times> vk_world \<Rightarrow>
     fault + (VkResult \<times> ve_swapchain \<times> vk_world)" where
  "swapchain_build a surface_format ext scw =
     (case scw of (sc, w) \<Rightarrow>
        (case vk_create Swapchain (swapchain sc) w of (r, h, w1) \<Rightarrow>
           let sc1 = sc\<lparr>swapchain := h\<rparr> in
           if r \<noteq> VK_SUCCESS then Inr (r, sc1, w1)
           else
             (case ve_allocate (length (driver_images w1) * 8) w1 of (addr, w2) \<Rightarrow>
                let sc2 = sc1\<lparr>swapchain_format := format surface_format, extent := ext,
                              images := (if addr = 0 then None
                                         else Some (addr, driver_images w2)),
                              image_count := of_nat (length (driver_images w2))\<rparr>
                in (case ve_swapchain_create_image_views a (sc2, w2) of
                      Inl e \<Rightarrow> Inl e
                    | Inr (r2, sc3, w3) \<Rightarrow>
                        if r2 \<noteq> VK_SUCCESS
                        then (case ve_swapchain_destroy (sc3, w3) of
                                Inl e \<Rightarrow> Inl e
                              | Inr (sc4, w4) \<Rightarrow> Inr (r2, sc4, w4))
                        else Inr (VK_SUCCESS,
                                  sc3\<lparr>out_of_date := False, framebuffers := None\<rparr>, w3)))))"

text \<open>
  \<open>ve_swapchain_create\<close>. When its assertion fails and the handler continues, the driver is
  queried without a physical device or surface.
\<close>

definition ve_swapchain_create ::
    "assert_state \<Rightarrow> ve_swapchain_config \<Rightarrow> ve_swapchain \<times> vk_world \<Rightarrow>
     fault + (VkResult \<times> ve_swapchain \<times> vk_world)" where
  "ve_swapchain_create a config scw =
     (case scw of (sc, w) \<Rightarrow>
        if \<not> VE_ASSERT a (vk_physical_device w \<noteq> VK_NULL_HANDLE \<and> vk_surface w \<noteq> VK_NULL_HANDLE)
        then Inl AssertFatal
        else if vk_physical_device w = VK_NULL_HANDLE \<or> vk_surface w = VK_NULL_HANDLE
        then Inl NullDeref
        else
          (case (if swapchain sc \<noteq> VK_NULL_HANDLE then ve_swapchain_destroy (sc, w)
                 else Inr (sc, w)) of
             Inl e \<Rightarrow> Inl e
           | Inr (sc1, w1) \<Rightarrow>
               let support = ve_vulkan_query_swapchain_support w1 in
               (case ve_swapchain_choose_surface_format a (formats support)
                       (if format (preferred_format config) \<noteq> VK_FORMAT_UNDEFINED
                        then Some (preferred_format config) else None) of
                  Inl e \<Rightarrow> Inl e
                | Inr surface_format \<Rightarrow>
                    (case ve_swapchain_choose_present_mode a (present_modes support)
                            (vsync config) (triple_buffering config) of
                       Inl e \<Rightarrow> Inl e
                     | Inr present_mode \<Rightarrow>
                         (case ve_swapchain_choose_extent (capabilities support)
                                 (config_width config) (config_height config) of
                            Inl e \<Rightarrow> Inl e
                          | Inr ext \<Rightarrow> swapchain_build a surface_format ext (sc1, w1))))))"

text \<open>\<open>ve_swapchain_recreate\<close>: wait for the device, then create.\<close>

definition ve_swapchain_recreate ::
    "assert_state \<Rightarrow> ve_swapchain_config \<Rightarrow> ve_swapchain \<times> vk_world \<Rightarrow>
     fault + (VkResult \<times> ve_swapchain \<times> vk_world)" where
  "ve_swapchain_recreate a config scw = ve_swapchain_create a config scw"

subsection \<open>The operations of the module as steps\<close>

datatype swapchain_op =
    Op_Create ve_swapchain_config
  | Op_Recreate ve_swapchain_config
  | Op_Destroy
  | Op_Acquire VkResult u32
  | Op_Present VkResult
  | Op_Set_Framebuffers array_ptr u32 bool
  | Op_Create_Image_Views
  | Op_Create_Framebuffers handle handle

text \<open>
  One call from outside; acquire and present carry what the driver answers. The result code
  of a \<open>void\<close> function is \<open>None\<close>.
\<close>

fun swapchain_step ::
    "assert_state \<Rightarrow> swapchain_op \<Rightarrow> ve_swapchain \<times> vk_world \<Rightarrow>
     fault + (VkResult option \<times> ve_swapchain \<times> vk_world)" where
  "swapchain_step a (Op_Create config) scw =
     map_sum id (\<lambda>(r, scw'). (Some r, scw')) (ve_swapchain_create a config scw)"
| "swapchain_step a (Op_Recreate config) scw =
     map_sum id (\<lambda>(r, scw'). (Some r, scw')) (ve_swapchain_recreate a config scw)"
| "swapchain_step a Op_Destroy scw =
     map_sum id (\<lambda>scw'. (None, scw')) (ve_swapchain_destroy scw)"
| "swapchain_step a (Op_Acquire drv idx) scw =
     map_sum id (\<lambda>(r, sc'). (Some r, sc', snd scw))
       (ve_swapchain_acquire_next_image a (snd scw) drv idx (fst scw))"
| "swapchain_step a (Op_Present drv) scw =
     map_sum id (\<lambda>(r, sc'). (Some r, sc', snd scw))
       (ve_swapchain_present a (snd scw) drv (fst scw))"
| "swapchain_step a (Op_Set_Framebuffers fbs cnt owns) scw =
     map_sum id (\<lambda>scw'. (None, scw')) (ve_swapchain_set_framebuffers fbs cnt owns scw)"
| "swapchain_step a Op_Create_Image_Views scw =
     map_sum id (\<lambda>(r, scw'). (Some r, scw')) (ve_swapchain_create_image_views a scw)"
| "swapchain_step a (Op_Create_Framebuffers render_pass depth_view) scw =
     map_sum id (\<lambda>(r, scw'). (Some r, scw'))
       (ve_swapchain_create_framebuffers a render_pass depth_view scw)"

text \<open>
  A sequence of calls, as the list of what each did: the call, its result code, and the
  out-of-date flag before and after it. A fault ends the process and the list.
\<close>

fun swapchain_run ::
    "assert_state \<Rightarrow> swapchain_op list \<Rightarrow> ve_swapchain \<times> vk_world \<Rightarrow>
     (swapchain_op \<times> VkResult option \<times> bool \<times> bool) list" where
  "swapchain_run a [] scw = []"
| "swapchain_run a (x # xs) scw =
     (case swapchain_step a x scw of
        Inl e \<Rightarrow> []
      | Inr (r, scw') \<Rightarrow>
          (x, r, out_of_date (fst scw), out_of_date (fst scw')) # swapchain_run a xs scw')"

section \<open>command_buffer.h / command_buffer.c\<close>

text \<open>
  The enum \<open>ve_command_buffer_type\<close> is a C integer (0 graphics, 1 compute, 2 transfer),
  which the code compares with 3; the C field \<open>type\<close> is \<open>buffer_type\<close> here.
\<close>

record ve_command_buffer =
  buffer :: handle
  buffer_type :: nat
  is_recording :: bool
  is_submitting :: bool

text \<open>
  The statics \<open>g_initialized\<close> and \<open>g_frame_command_buffers[3][3]\<close>. Each entry points to
  its own buffer, so the table holds the buffers themselves; \<open>None\<close> is NULL.
\<close>

record command_buffer_state =
  g_initialized :: bool
  g_frame_command_buffers :: "ve_command_buffer option list list"

text \<open>
  \<open>ve_command_buffer_begin\<close>; \<open>drv\<close> is the result of \<open>vkBeginCommandBuffer\<close>. A NULL
  \<open>cmd\<close> that gets past the assertion is dereferenced.
\<close>

definition ve_command_buffer_begin ::
    "assert_state \<Rightarrow> VkResult \<Rightarrow> ve_command_buffer option \<Rightarrow> u32 \<Rightarrow>
     fault + (VkResult \<times> ve_command_buffer)" where
  "ve_command_buffer_begin a drv cmd flags =
     (if \<not> VE_ASSERT a (case cmd of None \<Rightarrow> False | Some c \<Rightarrow> \<not> is_recording c)
      then Inl AssertFatal
      else (case cmd of
              None \<Rightarrow> Inl NullDeref
            | Some c \<Rightarrow>
                if drv = VK_SUCCESS then Inr (drv, c\<lparr>is_recording := True\<rparr>)
                else Inr (drv, c)))"

definition ve_command_buffer_get_current ::
    "command_buffer_state \<Rightarrow> vk_world \<Rightarrow> nat \<Rightarrow> fault + ve_command_buffer option" where
  "ve_command_buffer_get_current g w ty =
     (if \<not> g_initialized g \<or> ty \<ge> 3 then Inr None
      else (let current = unat (ve_vulkan_get_current_frame w)
            in if current < length (g_frame_command_buffers g) \<and>
                  ty < length (g_frame_command_buffers g ! current)
               then Inr (g_frame_command_buffers g ! current ! ty)
               else Inl OutOfBoundsRead))"

text \<open>
  \<open>ve_command_buffer_begin_frame\<close>: the result is the pointer it returns, with the buffer as
  the call leaves it, and the table.
\<close>

definition ve_command_buffer_begin_frame ::
    "assert_state \<Rightarrow> VkResult \<Rightarrow> nat \<Rightarrow> command_buffer_state \<times> vk_world \<Rightarrow>
     fault + (ve_command_buffer option \<times> command_buffer_state)" where
  "ve_command_buffer_begin_frame a drv ty gw =
     (case gw of (g, w) \<Rightarrow>
        (case ve_command_buffer_get_current g w ty of
           Inl e \<Rightarrow> Inl e
         | Inr None \<Rightarrow> Inr (None, g)
         | Inr (Some cmd) \<Rightarrow>
             if is_recording cmd then Inr (Some cmd, g)
             else (case ve_command_buffer_begin a drv (Some cmd)
                          VK_COMMAND_BUFFER_USAGE_ONE_TIME_SUBMIT_BIT of
                     Inl e \<Rightarrow> Inl e
                   | Inr (r, cmd') \<Rightarrow>
                       let current = unat (ve_vulkan_get_current_frame w);
                           g' = g\<lparr>g_frame_command_buffers :=
                                   (g_frame_command_buffers g)
                                     [current := (g_frame_command_buffers g ! current)
                                                   [ty := Some cmd']]\<rparr>
                       in if r \<noteq> VK_SUCCESS then Inr (None, g') else Inr (Some cmd', g'))))"

section \<open>Running the sync module\<close>

datatype sync_op = Sync_Init | Sync_Advance | Sync_Shutdown

fun sync_step :: "assert_state \<Rightarrow> sync_op \<Rightarrow> ve_sync_state \<times> vk_world \<Rightarrow> fault + (ve_sync_state \<times> vk_world)" where
  "sync_step a Sync_Init sw = map_sum id snd (ve_sync_init a sw)"
| "sync_step a Sync_Advance sw = Inr (ve_sync_advance_frame (fst sw), snd sw)"
| "sync_step a Sync_Shutdown sw = Inr (ve_sync_shutdown sw)"

text \<open>A sequence of calls; a fault ends the process and the run.\<close>

fun sync_run :: "assert_state \<Rightarrow> sync_op list \<Rightarrow> ve_sync_state \<times> vk_world \<Rightarrow> fault + (ve_sync_state \<times> vk_world)" where
  "sync_run a [] sw = Inr sw"
| "sync_run a (x # xs) sw =
     (case sync_step a x sw of Inl e \<Rightarrow> Inl e | Inr sw' \<Rightarrow> sync_run a xs sw')"

section \<open>Notions the properties are stated with\<close>

text \<open>The seven handles of a frame slot, and a slot whose primitives all exist.\<close>

definition frame_handle_list :: "ve_frame_sync \<Rightarrow> handle list" where
  "frame_handle_list f =
     [render_fence f, compute_fence f, transfer_fence f, image_available f,
      render_finished f, compute_finished f, transfer_finished f]"

definition frame_ready :: "vk_world \<Rightarrow> ve_frame_sync \<Rightarrow> bool" where
  "frame_ready w f \<longleftrightarrow>
     objects w (render_fence f) = Some (Fence True) \<and>
     objects w (compute_fence f) = Some (Fence True) \<and>
     objects w (transfer_fence f) = Some (Fence True) \<and>
     objects w (image_available f) = Some Semaphore \<and>
     objects w (render_finished f) = Some Semaphore \<and>
     objects w (compute_finished f) = Some Semaphore \<and>
     objects w (transfer_finished f) = Some Semaphore \<and>
     distinct (frame_handle_list f) \<and> VK_NULL_HANDLE \<notin> set (frame_handle_list f)"

definition sync_handles :: "ve_sync_state \<Rightarrow> handle set" where
  "sync_handles s =
     (\<Union>i<VE_MAX_FRAMES_IN_FLIGHT. set (frame_handle_list (frames s ! i))) - {VK_NULL_HANDLE}"

text \<open>
  \<open>progress w0 k H w\<close>: since \<open>w0\<close> the driver has answered \<open>k\<close> fallible calls, and the
  device's objects differ from those of \<open>w0\<close> at most at the handles \<open>H\<close>, all of them
  issued since.
\<close>

definition progress :: "vk_world \<Rightarrow> nat \<Rightarrow> handle set \<Rightarrow> vk_world \<Rightarrow> bool" where
  "progress w0 k H w \<longleftrightarrow>
     vk_device w = vk_device w0 \<and>
     handles_issued w0 \<le> handles_issued w \<and>
     (\<forall>h\<in>H. handles_issued w0 < h \<and> h \<le> handles_issued w) \<and>
     (\<forall>h. h \<notin> H \<longrightarrow> objects w h = objects w0 h) \<and>
     driver_results w = drop k (driver_results w0)"

text \<open>The invariant of the loop of \<open>ve_sync_init\<close> before round \<open>i\<close>.\<close>

definition sync_init_inv :: "vk_world \<Rightarrow> nat \<Rightarrow> ve_sync_state \<Rightarrow> vk_world \<Rightarrow> bool" where
  "sync_init_inv w0 i s w \<longleftrightarrow>
     length (frames s) = 3 \<and> vk_device w \<noteq> 0 \<and> current_frame s = 0 \<and>
     (\<forall>j. i \<le> j \<and> j < 3 \<longrightarrow> frames s ! j = frame_zero) \<and>
     progress w0 (7 * i) (sync_handles s) w \<and>
     (\<forall>j<i. frame_ready w (frames s ! j)) \<and>
     (\<forall>j<i. \<forall>k<i. j \<noteq> k \<longrightarrow>
        set (frame_handle_list (frames s ! j)) \<inter> set (frame_handle_list (frames s ! k)) = {}) \<and>
     (\<forall>j<7 * i. j < length (driver_results w0) \<longrightarrow> driver_results w0 ! j = 0)"

text \<open>Whether the next \<open>ve_allocate\<close> of \<open>sz\<close> bytes hands out a block.\<close>

definition allocation_succeeds :: "nat \<Rightarrow> vk_world \<Rightarrow> bool" where
  "allocation_succeeds sz w \<longleftrightarrow> fst (ve_allocate sz w) \<noteq> 0"

text \<open>
  Of the next \<open>n\<close> creations that the driver will answer with \<open>rs\<close>, number \<open>i\<close> is the
  first one it refuses.
\<close>

definition first_failure :: "VkResult list \<Rightarrow> nat \<Rightarrow> nat \<Rightarrow> bool" where
  "first_failure rs n i \<longleftrightarrow>
     i < n \<and> i < length rs \<and> rs ! i \<noteq> VK_SUCCESS \<and> (\<forall>j<i. rs ! j = VK_SUCCESS)"

text \<open>Concrete inputs for the examples.\<close>

definition assert_default :: assert_state where
  "assert_default = \<lparr>g_assert_mode = VE_ASSERT_MODE_DEBUG_BREAK, g_assert_callback = None\<rparr>"

definition srgb_format :: VkSurfaceFormatKHR where
  "srgb_format = \<lparr>format = VK_FORMAT_B8G8R8A8_SRGB, colorSpace = VK_COLOR_SPACE_SRGB_NONLINEAR_KHR\<rparr>"

definition surface_example :: ve_swapchain_support where
  "surface_example =
     \<lparr>capabilities =
        \<lparr>minImageCount = 2, maxImageCount = 3,
           currentExtent = \<lparr>width = UINT32_MAX, height = UINT32_MAX\<rparr>,
           minImageExtent = \<lparr>width = 1, height = 1\<rparr>,
           maxImageExtent = \<lparr>width = 4096, height = 4096\<rparr>\<rparr>,
      formats = [srgb_format], present_modes = [VK_PRESENT_MODE_FIFO_KHR]\<rparr>"

text \<open>
  A device with no objects yet whose driver will answer \<open>rs\<close>; two host blocks are in
  use.
\<close>

definition world_example :: "VkResult list \<Rightarrow> vk_world" where
  "world_example rs =
     \<lparr>vk_device = 1, vk_physical_device = 1, vk_surface = 1, vk_current_frame = 0,
        objects = Map.empty, handles_issued = 0, driver_results = rs, alloc_results = [],
        host_blocks = {1, 2}, blocks_issued = 2, junk = 0, device_extensions = [], surface_support = surface_example,
        driver_images = [100, 101, 102]\<rparr>"

text \<open>The static initialiser of \<open>g_swapchain\<close> and \<open>g_owns_framebuffers\<close>.\<close>

definition swapchain_zero :: ve_swapchain where
  "swapchain_zero =
     \<lparr>swapchain = VK_NULL_HANDLE, images = None, image_views = None, framebuffers = None,
        swapchain_format = VK_FORMAT_UNDEFINED, extent = \<lparr>width = 0, height = 0\<rparr>,
        image_count = 0, current_image_index = 0, out_of_date = False,
        g_owns_framebuffers = False\<rparr>"

text \<open>A surface whose extents are beyond the integers a float holds exactly.\<close>

definition caps_large :: VkSurfaceCapabilitiesKHR where
  "caps_large =
     \<lparr>minImageCount = 2, maxImageCount = 3,
        currentExtent = \<lparr>width = UINT32_MAX, height = UINT32_MAX\<rparr>,
        minImageExtent = \<lparr>width = 16777217, height = 1\<rparr>,
        maxImageExtent = \<lparr>width = 16777217, height = 4096\<rparr>\<rparr>"

text \<open>
  A chain of three images with its views made, before any framebuffer; the two arrays are
  the host blocks 1 and 2 of \<open>world_example\<close>.
\<close>

definition swapchain_example :: ve_swapchain where
  "swapchain_example =
     swapchain_zero\<lparr>swapchain := 50, images := Some (1, [100, 101, 102]),
                     image_views := Some (2, [60, 61, 62]), image_count := 3\<rparr>"

text \<open>An initialised table whose graphics buffer of slot 0 is recording.\<close>

definition buffer_example :: "bool \<Rightarrow> ve_command_buffer" where
  "buffer_example recording =
     \<lparr>buffer = 9, buffer_type = 0, is_recording = recording, is_submitting = False\<rparr>"

definition commands_example :: command_buffer_state where
  "commands_example =
     \<lparr>g_initialized = True,
        g_frame_command_buffers =
          [[Some (buffer_example True), Some (buffer_example False), None],
           [None, None, None], [None, None, None]]\<rparr>"

section \<open>The sync module: initialisation\<close>

lemma vk_create_cases:
  assumes "vk_create obj old w = (r, h, w')"
  shows "(r = 0 \<and> h = Suc (handles_issued w) \<and> objects w' = (objects w)(h \<mapsto> obj) \<and>
          handles_issued w' = Suc (handles_issued w) \<and> vk_device w' = vk_device w)
       \<or> (r \<noteq> 0 \<and> h = old \<and> objects w' = objects w \<and> handles_issued w' = handles_issued w \<and>
           vk_device w' = vk_device w)"
  using assms
  by (auto simp: vk_create_def next_result_def split: list.splits if_splits)

lemma progress_refl: "progress w 0 {} w"
  by (simp add: progress_def)

lemma progress_trans:
  assumes "progress w0 k H w" and "progress w k' H' w'"
  shows "progress w0 (k + k') (H \<union> H') w'"
  using assms unfolding progress_def
  by (fastforce simp: add.commute)

lemma progress_keeps:
  "progress w0 k H w \<Longrightarrow> h \<le> handles_issued w0 \<Longrightarrow> objects w h = objects w0 h"
  unfolding progress_def using leD by blast

lemma progress_create:
  assumes "progress w0 k H w" and "vk_create obj old w = (r, h, w')"
  shows "(r = 0 \<longrightarrow> progress w0 (Suc k) (insert h H) w' \<and> h \<noteq> 0 \<and>
            (k < length (driver_results w0) \<longrightarrow> driver_results w0 ! k = 0)) \<and>
         (r \<noteq> 0 \<longrightarrow> progress w0 (Suc k) H w' \<and> h = old \<and> objects w' = objects w \<and>
            k < length (driver_results w0) \<and> driver_results w0 ! k \<noteq> 0 \<and>
            driver_results w0 ! k = r)"
proof (cases "driver_results w")
  case Nil
  with assms(2) have "r = 0" "h = Suc (handles_issued w)"
    "w' = w\<lparr>objects := (objects w)(Suc (handles_issued w) \<mapsto> obj),
            handles_issued := Suc (handles_issued w)\<rparr>"
    by (auto simp: vk_create_def next_result_def)
  moreover from assms(1) Nil have "\<not> k < length (driver_results w0)"
    by (simp add: progress_def)
  ultimately show ?thesis using assms(1) Nil
    by (auto simp: progress_def)
next
  case (Cons x xs)
  from assms(1) have d: "driver_results w = drop k (driver_results w0)"
    by (simp add: progress_def)
  with Cons have kl: "k < length (driver_results w0)"
    by (metis drop_all list.distinct(1) not_le_imp_less)
  from d Cons kl have xk: "driver_results w0 ! k = x" and xs: "xs = drop (Suc k) (driver_results w0)"
    by (metis Cons_nth_drop_Suc list.inject)+
  show ?thesis
  proof (cases "x = 0")
    case True
    with assms(2) Cons have "r = 0" "h = Suc (handles_issued w)"
      "w' = w\<lparr>driver_results := xs, objects := (objects w)(Suc (handles_issued w) \<mapsto> obj),
              handles_issued := Suc (handles_issued w)\<rparr>"
      by (auto simp: vk_create_def next_result_def)
    with assms(1) xs xk True show ?thesis
      by (auto simp: progress_def)
  next
    case False
    with assms(2) Cons have "r = x" "h = old" "w' = w\<lparr>driver_results := xs\<rparr>"
      by (auto simp: vk_create_def next_result_def)
    with assms(1) xs xk kl False show ?thesis
      by (auto simp: progress_def)
  qed
qed

lemma progress_semaphore:
  assumes "progress w0 k H w" and "ve_sync_create_semaphore w = (h, w')"
  shows "progress w0 (Suc k) (insert h H - {0}) w' \<and>
         (h = 0 \<longrightarrow> k < length (driver_results w0) \<and> driver_results w0 ! k \<noteq> 0) \<and>
         (h \<noteq> 0 \<longrightarrow> k < length (driver_results w0) \<longrightarrow> driver_results w0 ! k = 0)"
proof -
  obtain r where c: "vk_create Semaphore 0 w = (r, h, w')"
    using assms(2) by (auto simp: ve_sync_create_semaphore_def split: prod.splits)
  have z: "0 \<notin> H" using assms(1) by (auto simp: progress_def)
  show ?thesis
  proof (cases "r = 0")
    case True
    with progress_create [OF assms(1) c] have "progress w0 (Suc k) (insert h H) w'" "h \<noteq> 0"
      "k < length (driver_results w0) \<longrightarrow> driver_results w0 ! k = 0"
      by auto
    moreover from z \<open>h \<noteq> 0\<close> have "insert h H - {0} = insert h H" by auto
    ultimately show ?thesis by simp
  next
    case False
    with progress_create [OF assms(1) c]
    have p: "progress w0 (Suc k) H w'" "h = 0"
      "k < length (driver_results w0)" "driver_results w0 ! k \<noteq> 0"
      by auto
    moreover from z \<open>h = 0\<close> have "insert h H - {0} = H" by auto
    ultimately show ?thesis by simp
  qed
qed


lemma sync_init_frame_ok:
  assumes "sync_init_frame frame_zero w = (0, f, w')"
  shows "frame_ready w' f"
  using assms
  apply (simp add: sync_init_frame_def vkCreateFence_def ve_sync_create_semaphore_def Let_def frame_zero_def
      split: prod.splits if_splits)
  apply (auto dest!: vk_create_cases simp: frame_ready_def frame_handle_list_def)
  done

lemma sync_init_frame_progress:
  assumes "sync_init_frame frame_zero w = (r, f, w')"
  shows "\<exists>k. progress w k (set (frame_handle_list f) - {0}) w' \<and>
           (r = 0 \<longrightarrow> k = 7 \<and>
              (\<forall>j<7. j < length (driver_results w) \<longrightarrow> driver_results w ! j = 0)) \<and>
           (r \<noteq> 0 \<longrightarrow> (\<exists>j<7. j < length (driver_results w) \<and> driver_results w ! j \<noteq> 0))"
proof -
  obtain r1 h1 w1 where c1: "vk_create (Fence True) 0 w = (r1, h1, w1)"
    by (metis prod_cases3)
  note p1 = progress_create [OF progress_refl c1]
  show ?thesis
  proof (cases "r1 = 0")
    case False
    with assms c1 have e: "r = r1" "f = frame_zero\<lparr>render_fence := h1\<rparr>" "w' = w1"
      by (simp_all add: sync_init_frame_def vkCreateFence_def frame_zero_def)
    from p1 False have q: "progress w (Suc 0) {} w1" "h1 = 0"
      "0 < length (driver_results w)" "driver_results w ! 0 \<noteq> 0"
      by auto
    have H: "set (frame_handle_list f) - {0} = {}"
      using q(2) e(2) by (auto simp: frame_handle_list_def frame_zero_def)
    have P: "progress w (Suc 0) (set (frame_handle_list f) - {0}) w'"
      unfolding H e(3) by (fact q(1))
    have F: "\<exists>j<7. j < length (driver_results w) \<and> driver_results w ! j \<noteq> 0"
      using q(3,4) by (intro exI [of _ 0]) simp
    from P F e(1) False show ?thesis by blast
  next
    case r1: True
    with p1 have q1: "progress w (Suc 0) {h1} w1" "h1 \<noteq> 0" by auto
    obtain r2 h2 w2 where c2: "vk_create (Fence True) 0 w1 = (r2, h2, w2)"
      by (metis prod_cases3)
    note p2 = progress_create [OF q1(1) c2]
    show ?thesis
    proof (cases "r2 = 0")
      case False
      with assms c1 c2 r1 have e: "r = r2"
        "f = frame_zero\<lparr>render_fence := h1, compute_fence := h2\<rparr>" "w' = w2"
        by (simp_all add: sync_init_frame_def vkCreateFence_def frame_zero_def)
      from p2 False have q: "progress w (Suc (Suc 0)) {h1} w2" "h2 = 0"
        "Suc 0 < length (driver_results w)" "driver_results w ! Suc 0 \<noteq> 0"
        by auto
      have H: "set (frame_handle_list f) - {0} = {h1}"
        using q1(2) q(2) e(2) by (auto simp: frame_handle_list_def frame_zero_def)
      have P: "progress w (Suc (Suc 0)) (set (frame_handle_list f) - {0}) w'"
        unfolding H e(3) by (fact q(1))
      have F: "\<exists>j<7. j < length (driver_results w) \<and> driver_results w ! j \<noteq> 0"
        using q(3,4) by (intro exI [of _ "Suc 0"]) simp
      from P F e(1) False show ?thesis by blast
    next
      case r2: True
      with p2 have q2: "progress w (Suc (Suc 0)) {h2, h1} w2" "h2 \<noteq> 0" by auto
      obtain r3 h3 w3 where c3: "vk_create (Fence True) 0 w2 = (r3, h3, w3)"
        by (metis prod_cases3)
      note p3 = progress_create [OF q2(1) c3]
      show ?thesis
      proof (cases "r3 = 0")
        case False
        with assms c1 c2 c3 r1 r2 have e: "r = r3"
          "f = frame_zero\<lparr>render_fence := h1, compute_fence := h2, transfer_fence := h3\<rparr>"
          "w' = w3"
          by (simp_all add: sync_init_frame_def vkCreateFence_def frame_zero_def)
        from p3 False have q: "progress w (Suc (Suc (Suc 0))) {h2, h1} w3" "h3 = 0"
          "Suc (Suc 0) < length (driver_results w)" "driver_results w ! Suc (Suc 0) \<noteq> 0"
          by auto
        have H: "set (frame_handle_list f) - {0} = {h2, h1}"
          using q1(2) q2(2) q(2) e(2) by (auto simp: frame_handle_list_def frame_zero_def)
        have P: "progress w (Suc (Suc (Suc 0))) (set (frame_handle_list f) - {0}) w'"
          unfolding H e(3) by (fact q(1))
        have F: "\<exists>j<7. j < length (driver_results w) \<and> driver_results w ! j \<noteq> 0"
          using q(3,4) by (intro exI [of _ "Suc (Suc 0)"]) simp
        from P F e(1) False show ?thesis by blast
      next
        case r3: True
        with p3 have q3: "progress w (Suc (Suc (Suc 0))) {h3, h2, h1} w3" "h3 \<noteq> 0"
          by auto
        obtain s1 w4 where c4: "ve_sync_create_semaphore w3 = (s1, w4)" by fastforce
        obtain s2 w5 where c5: "ve_sync_create_semaphore w4 = (s2, w5)" by fastforce
        obtain s3 w6 where c6: "ve_sync_create_semaphore w5 = (s3, w6)" by fastforce
        obtain s4 w7 where c7: "ve_sync_create_semaphore w6 = (s4, w7)" by fastforce
        note p4 = progress_semaphore [OF q3(1) c4]
        note p5 = progress_semaphore [OF p4 [THEN conjunct1] c5]
        note p6 = progress_semaphore [OF p5 [THEN conjunct1] c6]
        note p7 = progress_semaphore [OF p6 [THEN conjunct1] c7]
        from assms c1 c2 c3 c4 c5 c6 c7 r1 r2 r3
        have e: "f = \<lparr>render_fence = h1, compute_fence = h2, transfer_fence = h3,
                       image_available = s1, render_finished = s2, compute_finished = s3,
                       transfer_finished = s4\<rparr>" "w' = w7"
          "r = (if s1 = 0 \<or> s2 = 0 \<or> s3 = 0 \<or> s4 = 0 then - 2 else 0)"
          by (simp_all add: sync_init_frame_def vkCreateFence_def frame_zero_def Let_def
              split: if_splits)
        have H: "set (frame_handle_list f) - {0} =
                 insert s4 (insert s3 (insert s2 (insert s1 {h3, h2, h1} - {0}) - {0}) - {0}) - {0}"
          unfolding e(1) by (auto simp: frame_handle_list_def)
        have P: "progress w 7 (set (frame_handle_list f) - {0}) w'"
          using p7 [THEN conjunct1] unfolding H e(2)
          by (simp add: eval_nat_numeral)
        have F: "r \<noteq> 0 \<longrightarrow> (\<exists>j<7. j < length (driver_results w) \<and> driver_results w ! j \<noteq> 0)"
        proof
          assume "r \<noteq> 0"
          with e(3) consider "s1 = 0" | "s2 = 0" | "s3 = 0" | "s4 = 0"
            by (auto split: if_splits)
          then show "\<exists>j<7. j < length (driver_results w) \<and> driver_results w ! j \<noteq> 0"
          proof cases
            case 1 with p4 show ?thesis by (intro exI [of _ "Suc (Suc (Suc 0))"]) simp
          next
            case 2 with p5 show ?thesis by (intro exI [of _ "Suc (Suc (Suc (Suc 0)))"]) simp
          next
            case 3 with p6 show ?thesis by (intro exI [of _ "Suc (Suc (Suc (Suc (Suc 0))))"]) simp
          next
            case 4 with p7 show ?thesis
              by (intro exI [of _ "Suc (Suc (Suc (Suc (Suc (Suc 0)))))"]) simp
          qed
        qed
        have S: "r = 0 \<longrightarrow> (\<forall>j<7. j < length (driver_results w) \<longrightarrow> driver_results w ! j = 0)"
        proof (intro impI allI)
          fix j :: nat
          assume "r = 0" and "j < 7" and jl: "j < length (driver_results w)"
          from \<open>r = 0\<close> e(3) have nz: "s1 \<noteq> 0" "s2 \<noteq> 0" "s3 \<noteq> 0" "s4 \<noteq> 0"
            by (auto split: if_splits)
          from \<open>j < 7\<close> consider "j = 0" | "j = Suc 0" | "j = Suc (Suc 0)" | "j = Suc (Suc (Suc 0))"
            | "j = Suc (Suc (Suc (Suc 0)))" | "j = Suc (Suc (Suc (Suc (Suc 0))))"
            | "j = Suc (Suc (Suc (Suc (Suc (Suc 0)))))"
            by (auto simp: eval_nat_numeral less_Suc_eq)
          then show "driver_results w ! j = 0"
          proof cases
            case 1 with p1 r1 jl show ?thesis by simp
          next
            case 2 with p2 r2 jl show ?thesis by simp
          next
            case 3 with p3 r3 jl show ?thesis by simp
          next
            case 4 with p4 nz jl show ?thesis by simp
          next
            case 5 with p5 nz jl show ?thesis by simp
          next
            case 6 with p6 nz jl show ?thesis by simp
          next
            case 7 with p7 nz jl show ?thesis by simp
          qed
        qed
        from P F S show ?thesis by blast
      qed
    qed
  qed
qed

lemma vk_destroy_fields [simp]:
  "vk_device (vk_destroy h w) = vk_device w"
  "handles_issued (vk_destroy h w) = handles_issued w"
  by (simp_all add: vk_destroy_def)

lemma vk_destroy_if_nonnull [simp]:
  "(if h \<noteq> 0 then vk_destroy h w else w) = vk_destroy h w"
  "(if 0 < h then vk_destroy h w else w) = vk_destroy h w"
  "vk_destroy 0 w = w"
  by (simp_all add: vk_destroy_def)

lemma ve_sync_destroy_semaphore_device:
  "vk_device w \<noteq> 0 \<Longrightarrow> ve_sync_destroy_semaphore h w = vk_destroy h w"
  by (simp add: ve_sync_destroy_semaphore_def vk_destroy_def)

lemma fold_vk_destroy_device [simp]:
  "vk_device (fold vk_destroy hs w) = vk_device w"
  by (induction hs arbitrary: w) simp_all

lemma fold_vk_destroy_objects:
  "objects (fold vk_destroy hs w) h = (if h \<noteq> 0 \<and> h \<in> set hs then None else objects w h)"
  by (induction hs arbitrary: w) (auto simp: vk_destroy_def)

lemma sync_shutdown_frame_fold:
  assumes "vk_device w \<noteq> 0"
  shows "sync_shutdown_frame f w = fold vk_destroy (frame_handle_list f) w"
  using assms
  by (simp add: sync_shutdown_frame_def ve_sync_destroy_semaphore_device Let_def frame_handle_list_def)

lemma upt_3: "[0..<3] = [0, Suc 0, Suc (Suc 0)]"
  by (simp add: eval_nat_numeral upt_rec)

lemma lessThan_3: "{..<3::nat} = {0, Suc 0, Suc (Suc 0)}"
  by (auto simp: eval_nat_numeral less_Suc_eq)

lemma ve_sync_shutdown_result:
  assumes "vk_device w \<noteq> 0"
  shows "fst (ve_sync_shutdown (s, w)) = sync_zero"
    and "objects (snd (ve_sync_shutdown (s, w))) h =
         (if h \<in> sync_handles s then None else objects w h)"
  using assms
  by (simp_all add: ve_sync_shutdown_def upt_3 sync_shutdown_frame_fold fold_vk_destroy_objects
      sync_handles_def lessThan_3)

lemma frame_handle_list_zero: "set (frame_handle_list frame_zero) = {0}"
  by (simp add: frame_handle_list_def frame_zero_def)

lemma sync_handles_update:
  assumes "length (frames s) = 3" and "i < 3" and "frames s ! i = frame_zero"
  shows "sync_handles (s\<lparr>frames := (frames s)[i := f]\<rparr>) =
         sync_handles s \<union> (set (frame_handle_list f) - {0})"
proof -
  from assms(2) consider "i = 0" | "i = Suc 0" | "i = Suc (Suc 0)"
    by (auto simp: eval_nat_numeral less_Suc_eq)
  then show ?thesis
    using assms(1,3) frame_handle_list_zero
    by cases (auto simp: sync_handles_def lessThan_3)
qed

lemma frame_ready_same_objects:
  assumes "frame_ready w f" and "\<forall>h\<in>set (frame_handle_list f). objects w1 h = objects w h"
  shows "frame_ready w1 f"
  using assms by (simp add: frame_ready_def frame_handle_list_def)

lemma frame_ready_nonnull:
  assumes "frame_ready w f" and "h \<in> set (frame_handle_list f)"
  shows "h \<noteq> 0"
  using assms unfolding frame_ready_def by metis

lemma frame_ready_handles:
  assumes "frame_ready w (frames s ! j)" and "j < 3"
  shows "set (frame_handle_list (frames s ! j)) \<subseteq> sync_handles s"
  using assms frame_ready_nonnull [OF assms(1)] by (fastforce simp: sync_handles_def)

lemma sync_init_inv_step:
  assumes inv: "sync_init_inv w0 i s w" and i: "i < 3"
    and b: "sync_init_frame (frames s ! i) w = (0, f, w1)"
  shows "sync_init_inv w0 (Suc i) (s\<lparr>frames := (frames s)[i := f]\<rparr>) w1"
proof -
  let ?s1 = "s\<lparr>frames := (frames s)[i := f]\<rparr>"
  from inv have L: "length (frames s) = 3" and D: "vk_device w \<noteq> 0"
    and C: "current_frame s = 0"
    and Z: "\<And>j. i \<le> j \<Longrightarrow> j < 3 \<Longrightarrow> frames s ! j = frame_zero"
    and P: "progress w0 (7 * i) (sync_handles s) w"
    and R: "\<And>j. j < i \<Longrightarrow> frame_ready w (frames s ! j)"
    and X: "\<And>j k. j < i \<Longrightarrow> k < i \<Longrightarrow> j \<noteq> k \<Longrightarrow>
        set (frame_handle_list (frames s ! j)) \<inter> set (frame_handle_list (frames s ! k)) = {}"
    and S: "\<And>j. j < 7 * i \<Longrightarrow> j < length (driver_results w0) \<Longrightarrow> driver_results w0 ! j = 0"
    by (auto simp: sync_init_inv_def)
  from Z i have z: "frames s ! i = frame_zero" by simp
  from b z have b': "sync_init_frame frame_zero w = (0, f, w1)" by simp
  from sync_init_frame_progress [OF b']
  have pk: "progress w 7 (set (frame_handle_list f) - {0}) w1"
    and sk: "\<And>j. j < 7 \<Longrightarrow> j < length (driver_results w) \<Longrightarrow> driver_results w ! j = 0"
    by auto
  have rf: "frame_ready w1 f" by (rule sync_init_frame_ok [OF b'])
  have H1: "sync_handles ?s1 = sync_handles s \<union> (set (frame_handle_list f) - {0})"
    by (rule sync_handles_update [OF L i z])
  have P1: "progress w0 (7 * Suc i) (sync_handles ?s1) w1"
    using progress_trans [OF P pk] unfolding H1 by (simp add: add.commute)
  have D1: "vk_device w1 \<noteq> 0" using pk D by (simp add: progress_def)
  have old: "h \<le> handles_issued w" if "j < i" "h \<in> set (frame_handle_list (frames s ! j))" for j h
  proof -
    from that i have "h \<in> sync_handles s"
      using frame_ready_handles [OF R [OF that(1)]] by auto
    with P show ?thesis by (auto simp: progress_def)
  qed
  have new: "handles_issued w < h" if "h \<in> set (frame_handle_list f)" for h
  proof -
    from rf that have "h \<noteq> 0" by (rule frame_ready_nonnull)
    with that pk show ?thesis by (auto simp: progress_def)
  qed
  have R1: "frame_ready w1 (frames ?s1 ! j)" if "j < Suc i" for j
  proof (cases "j = i")
    case True
    with L i rf show ?thesis by simp
  next
    case False
    with that have ji: "j < i" by simp
    have "\<forall>h\<in>set (frame_handle_list (frames s ! j)). objects w1 h = objects w h"
      using progress_keeps [OF pk] old [OF ji] by blast
    from frame_ready_same_objects [OF R [OF ji] this] False show ?thesis by simp
  qed
  have X1: "set (frame_handle_list (frames ?s1 ! j)) \<inter> set (frame_handle_list (frames ?s1 ! k)) = {}"
    if jk: "j < Suc i" "k < Suc i" "j \<noteq> k" for j k
  proof -
    consider "j < i" "k < i" | "j = i" "k < i" | "j < i" "k = i"
      using jk by (auto simp: less_Suc_eq)
    then show ?thesis
    proof cases
      case 1
      with X [OF 1 jk(3)] show ?thesis by simp
    next
      case 2
      with L i have "frames ?s1 ! j = f" "frames ?s1 ! k = frames s ! k" by simp_all
      with new old [OF 2(2)] show ?thesis by fastforce
    next
      case 3
      with L i have "frames ?s1 ! k = f" "frames ?s1 ! j = frames s ! j" by simp_all
      with new old [OF 3(1)] show ?thesis by fastforce
    qed
  qed
  have S1: "driver_results w0 ! j = 0" if "j < 7 * Suc i" "j < length (driver_results w0)" for j
  proof (cases "j < 7 * i")
    case True
    with S that show ?thesis by simp
  next
    case False
    from P have d: "driver_results w = drop (7 * i) (driver_results w0)"
      by (simp add: progress_def)
    from False that have "j - 7 * i < 7" "j - 7 * i < length (driver_results w)"
      using d by auto
    from sk [OF this] d False that show ?thesis by simp
  qed
  from Z L have Z1: "\<forall>j. Suc i \<le> j \<and> j < 3 \<longrightarrow> frames ?s1 ! j = frame_zero"
    by simp
  show ?thesis
    unfolding sync_init_inv_def
    using L D1 C Z1 P1 R1 X1 S1 by simp
qed

lemma sync_init_fail_step:
  assumes inv: "sync_init_inv w0 i s w" and i: "i < 3"
    and b: "sync_init_frame (frames s ! i) w = (r, f, w1)" and r: "r \<noteq> 0"
    and sh: "ve_sync_shutdown (s\<lparr>frames := (frames s)[i := f]\<rparr>, w1) = (s', w')"
  shows "s' = sync_zero \<and> objects w' \<subseteq>\<^sub>m objects w0 \<and>
         (\<exists>j<21. j < length (driver_results w0) \<and> driver_results w0 ! j \<noteq> 0)"
proof -
  let ?s1 = "s\<lparr>frames := (frames s)[i := f]\<rparr>"
  from inv have L: "length (frames s) = 3" and D: "vk_device w \<noteq> 0"
    and Z: "\<And>j. i \<le> j \<Longrightarrow> j < 3 \<Longrightarrow> frames s ! j = frame_zero"
    and P: "progress w0 (7 * i) (sync_handles s) w"
    by (auto simp: sync_init_inv_def)
  from Z i have z: "frames s ! i = frame_zero" by simp
  from b z have b': "sync_init_frame frame_zero w = (r, f, w1)" by simp
  from sync_init_frame_progress [OF b'] r
  obtain k j where pk: "progress w k (set (frame_handle_list f) - {0}) w1"
    and j: "j < 7" "j < length (driver_results w)" "driver_results w ! j \<noteq> 0"
    by auto
  have H1: "sync_handles ?s1 = sync_handles s \<union> (set (frame_handle_list f) - {0})"
    by (rule sync_handles_update [OF L i z])
  have P1: "progress w0 (7 * i + k) (sync_handles ?s1) w1"
    using progress_trans [OF P pk] unfolding H1 .
  have D1: "vk_device w1 \<noteq> 0" using pk D by (simp add: progress_def)
  from ve_sync_shutdown_result [OF D1, of ?s1] sh
  have s': "s' = sync_zero"
    and o: "\<And>h. objects w' h = (if h \<in> sync_handles ?s1 then None else objects w1 h)"
    by simp_all
  have le: "objects w' \<subseteq>\<^sub>m objects w0"
    unfolding map_le_def
  proof
    fix h assume "h \<in> dom (objects w')"
    with o [of h] have "h \<notin> sync_handles ?s1" "objects w' h = objects w1 h"
      by (auto split: if_splits)
    with P1 show "objects w' h = objects w0 h" by (simp add: progress_def)
  qed
  from P have d: "driver_results w = drop (7 * i) (driver_results w0)"
    by (simp add: progress_def)
  from j d i have "7 * i + j < 21" "7 * i + j < length (driver_results w0)"
    "driver_results w0 ! (7 * i + j) \<noteq> 0"
    by auto
  then have "\<exists>j<21. j < length (driver_results w0) \<and> driver_results w0 ! j \<noteq> 0"
    by blast
  with s' le show ?thesis by simp
qed


lemma sync_init_loop_inv:
  assumes "sync_init_inv w0 i s w" and "i \<le> 3" and "sync_init_loop i (s, w) = (r, s', w')"
  shows "(r = 0 \<longrightarrow> sync_init_inv w0 3 s' w') \<and>
         (r \<noteq> 0 \<longrightarrow> s' = sync_zero \<and> objects w' \<subseteq>\<^sub>m objects w0 \<and>
            (\<exists>j<21. j < length (driver_results w0) \<and> driver_results w0 ! j \<noteq> 0))"
  using assms
proof (induction "3 - i" arbitrary: i s w)
  case 0
  then have "i = 3" by simp
  with 0 show ?case by (simp add: sync_init_loop.simps)
next
  case (Suc n)
  then have i: "i < 3" by simp
  obtain rb f w1 where b: "sync_init_frame (frames s ! i) w = (rb, f, w1)"
    by (metis prod_cases3)
  let ?s1 = "s\<lparr>frames := (frames s)[i := f]\<rparr>"
  show ?case
  proof (cases "rb = 0")
    case True
    with b i Suc.prems(3) have l: "sync_init_loop (Suc i) (?s1, w1) = (r, s', w')"
      by (simp add: sync_init_loop.simps [of i])
    from b True have "sync_init_inv w0 (Suc i) ?s1 w1"
      using sync_init_inv_step [OF Suc.prems(1) i] by simp
    moreover from Suc.hyps(2) have "n = 3 - Suc i" by simp
    ultimately show ?thesis
      using Suc.hyps(1) [of "Suc i" ?s1 w1] l i by simp
  next
    case False
    with b i Suc.prems(3) have "r = rb" "ve_sync_shutdown (?s1, w1) = (s', w')"
      by (simp_all add: sync_init_loop.simps [of i])
    with sync_init_fail_step [OF Suc.prems(1) i b False] False show ?thesis by simp
  qed
qed

lemma ve_free_fields [simp]:
  "objects (ve_free addr w) = objects w"
  "driver_results (ve_free addr w) = driver_results w"
  "alloc_results (ve_free addr w) = alloc_results w"
  "vk_device (ve_free addr w) = vk_device w"
  "handles_issued (ve_free addr w) = handles_issued w"
  "blocks_issued (ve_free addr w) = blocks_issued w"
  by (simp_all add: ve_free_def)

lemma ve_allocate_fields:
  assumes "ve_allocate n w = (addr, w1)"
  shows "objects w1 = objects w" and "driver_results w1 = driver_results w"
    and "vk_device w1 = vk_device w" and "handles_issued w1 = handles_issued w"
    and "driver_images w1 = driver_images w"
    and "host_blocks w1 = (if addr = 0 then host_blocks w else insert addr (host_blocks w))"
  using assms
  by (auto simp: ve_allocate_def new_block_def split: if_splits list.splits)

lemma ve_sync_supports_timeline_fields:
  assumes "ve_sync_supports_timeline w = (t, w1)"
  shows "objects w1 = objects w" and "driver_results w1 = driver_results w"
    and "vk_device w1 = vk_device w" and "handles_issued w1 = handles_issued w"
proof -
  obtain addr w2 where al: "ve_allocate (length (device_extensions w) * 260) w = (addr, w2)"
    by fastforce
  from assms al have "w1 = w \<or> w1 = w2 \<or> w1 = ve_free addr w2"
    by (auto simp: ve_sync_supports_timeline_def split: if_splits)
  with ve_allocate_fields [OF al]
  show "objects w1 = objects w" and "driver_results w1 = driver_results w"
    and "vk_device w1 = vk_device w" and "handles_issued w1 = handles_issued w"
    by auto
qed

lemma sync_handles_zero: "sync_handles (sync_zero\<lparr>timeline_semaphores := t\<rparr>) = {}"
proof -
  have "frames (sync_zero\<lparr>timeline_semaphores := t\<rparr>) ! i = frame_zero" if "i < 3" for i
    using that by (simp add: sync_zero_def)
  then have "set (frame_handle_list (frames (sync_zero\<lparr>timeline_semaphores := t\<rparr>) ! i)) = {0}"
    if "i < 3" for i
    using that frame_handle_list_zero by simp
  then show ?thesis
    unfolding sync_handles_def by blast
qed

lemma sync_init_inv_start:
  assumes "vk_device w \<noteq> 0"
  shows "sync_init_inv w 0 (sync_zero\<lparr>timeline_semaphores := t\<rparr>) w"
  unfolding sync_init_inv_def sync_handles_zero
  using assms progress_refl [of w] by (simp add: sync_zero_def)

lemma ve_sync_init_loop:
  assumes "ve_sync_init a (s, w) = Inr (r, s', w')"
  obtains t w1 where "ve_sync_supports_timeline w = (t, w1)"
    and "vk_device w \<noteq> 0"
    and "sync_init_loop 0 (sync_zero\<lparr>timeline_semaphores := t\<rparr>, w1) = (r, s', w')"
  using assms
  by (auto simp: ve_sync_init_def split: if_splits prod.splits)

lemma ve_sync_init_facts:
  assumes "ve_sync_init a (s, w) = Inr (r, s', w')"
  shows "r = 0 \<longrightarrow> (\<exists>w1. sync_init_inv w1 3 s' w' \<and> driver_results w1 = driver_results w)"
    and "r \<noteq> 0 \<longrightarrow> s' = sync_zero \<and> objects w' \<subseteq>\<^sub>m objects w \<and>
          (\<exists>j<21. j < length (driver_results w) \<and> driver_results w ! j \<noteq> 0)"
proof -
  from assms obtain t w1 where st: "ve_sync_supports_timeline w = (t, w1)"
    and d: "vk_device w \<noteq> 0"
    and l: "sync_init_loop 0 (sync_zero\<lparr>timeline_semaphores := t\<rparr>, w1) = (r, s', w')"
    by (rule ve_sync_init_loop)
  note f = ve_sync_supports_timeline_fields [OF st]
  from d f(3) have "sync_init_inv w1 0 (sync_zero\<lparr>timeline_semaphores := t\<rparr>) w1"
    by (simp add: sync_init_inv_start)
  from sync_init_loop_inv [OF this _ l]
  have *: "(r = 0 \<longrightarrow> sync_init_inv w1 3 s' w') \<and>
           (r \<noteq> 0 \<longrightarrow> s' = sync_zero \<and> objects w' \<subseteq>\<^sub>m objects w1 \<and>
              (\<exists>j<21. j < length (driver_results w1) \<and> driver_results w1 ! j \<noteq> 0))"
    by simp
  from * f(2) show "r = 0 \<longrightarrow> (\<exists>w1. sync_init_inv w1 3 s' w' \<and> driver_results w1 = driver_results w)"
    by blast
  from * f(1,2) show "r \<noteq> 0 \<longrightarrow> s' = sync_zero \<and> objects w' \<subseteq>\<^sub>m objects w \<and>
          (\<exists>j<21. j < length (driver_results w) \<and> driver_results w ! j \<noteq> 0)"
    by simp
qed

lemma ball_take_nth:
  "(\<forall>x\<in>set (take n xs). P x) \<longleftrightarrow> (\<forall>j<n. j < length xs \<longrightarrow> P (xs ! j))"
proof
  assume a: "\<forall>x\<in>set (take n xs). P x"
  show "\<forall>j<n. j < length xs \<longrightarrow> P (xs ! j)"
  proof (intro allI impI)
    fix j assume "j < n" "j < length xs"
    then have "xs ! j \<in> set (take n xs)"
      by (metis in_set_conv_nth length_take min_less_iff_conj nth_take)
    with a show "P (xs ! j)" by blast
  qed
next
  assume "\<forall>j<n. j < length xs \<longrightarrow> P (xs ! j)"
  then show "\<forall>x\<in>set (take n xs). P x"
    by (auto simp: in_set_conv_nth)
qed


lemmas sync_eval_defs =
  ve_sync_init_def VE_ASSERT_def world_example_def ve_sync_supports_timeline_def
  ve_allocate_def new_block_def ve_free_def sync_init_loop.simps sync_init_frame_def
  vkCreateFence_def vk_create_def
  next_result_def ve_sync_create_semaphore_def ve_sync_shutdown_def sync_shutdown_frame_def
  ve_sync_destroy_semaphore_def vk_destroy_def sync_zero_def frame_zero_def Let_def upt_3
  assert_default_def


section \<open>The sync module: the frame index\<close>

lemma advance_u32_small:
  fixes c :: u32
  assumes "unat c < 3"
  shows "unat ((c + 1) mod 3) = (unat c + 1) mod 3"
proof -
  have "unat (c + 1) = unat c + 1"
    using assms by (simp add: unat_word_ariths)
  then show ?thesis by (simp add: unat_mod_distrib)
qed

lemma advance_u32_bound:
  fixes c :: u32
  shows "unat ((c + 1) mod 3) < 3"
  by (simp add: unat_mod_distrib)

lemma current_frame_advance:
  "current_frame (ve_sync_advance_frame s) = (current_frame s + 1) mod 3"
  by (simp add: ve_sync_advance_frame_def)

lemma vk_current_frame_advance:
  "vk_current_frame (ve_vulkan_advance_frame w) = (vk_current_frame w + 1) mod 3"
  by (simp add: ve_vulkan_advance_frame_def)

lemma sync_advance_iter_frame:
  "unat (current_frame s) < 3 \<Longrightarrow>
   unat (current_frame ((ve_sync_advance_frame ^^ N) s)) = (unat (current_frame s) + N) mod 3"
proof (induction N)
  case 0
  then show ?case by simp
next
  case (Suc N)
  have b: "unat (current_frame ((ve_sync_advance_frame ^^ N) s)) < 3"
    using Suc by simp
  show ?case
    using Suc advance_u32_small [OF b]
    by (simp add: current_frame_advance mod_Suc_eq)
qed

lemma vulkan_advance_iter_frame:
  "unat (vk_current_frame w) < 3 \<Longrightarrow>
   unat (vk_current_frame ((ve_vulkan_advance_frame ^^ N) w)) =
     (unat (vk_current_frame w) + N) mod 3"
proof (induction N)
  case 0
  then show ?case by simp
next
  case (Suc N)
  have b: "unat (vk_current_frame ((ve_vulkan_advance_frame ^^ N) w)) < 3"
    using Suc by simp
  show ?case
    using Suc advance_u32_small [OF b]
    by (simp add: vk_current_frame_advance mod_Suc_eq)
qed

text \<open>
  C3, as the code has it. Neither \<open>ve_sync_advance_frame\<close> nor \<open>ve_vulkan_advance_frame\<close>
  counts frames: each steps a slot index around the ring of three. From an index below 3,
  \<open>N\<close> advances give \<open>(index + N) mod 3\<close>.
\<close>

theorem advance_frame_is_slot_ring:
  "(unat (current_frame s) < VE_MAX_FRAMES_IN_FLIGHT \<longrightarrow>
      unat (current_frame ((ve_sync_advance_frame ^^ N) s)) =
        (unat (current_frame s) + N) mod VE_MAX_FRAMES_IN_FLIGHT) \<and>
   (unat (vk_current_frame w) < VE_MAX_FRAMES_IN_FLIGHT \<longrightarrow>
      unat (ve_vulkan_get_current_frame ((ve_vulkan_advance_frame ^^ N) w)) =
        (unat (vk_current_frame w) + N) mod VE_MAX_FRAMES_IN_FLIGHT)"
  using sync_advance_iter_frame [of s N] vulkan_advance_iter_frame [of w N]
  by (simp add: ve_vulkan_get_current_frame_def)

theorem advance_frame_is_slot_ring_witness:
  "unat (current_frame sync_zero) < VE_MAX_FRAMES_IN_FLIGHT \<and>
   unat (current_frame ((ve_sync_advance_frame ^^ 4) sync_zero)) = 1 \<and>
   unat (vk_current_frame (world_example [])) < VE_MAX_FRAMES_IN_FLIGHT \<and>
   unat (ve_vulkan_get_current_frame ((ve_vulkan_advance_frame ^^ 4) (world_example []))) = 1"
  using advance_frame_is_slot_ring [of sync_zero 4 "world_example []"]
  by (simp add: sync_zero_def world_example_def)

text \<open>
  C3 as stated fails: three advances from the initial state bring the index back to 0, not
  to the initial value plus 3.
\<close>

theorem frame_counter_not_monotonic:
  "unat (current_frame ((ve_sync_advance_frame ^^ 3) sync_zero)) \<noteq>
   unat (current_frame sync_zero) + 3"
  by (simp add: current_frame_advance sync_zero_def numeral_3_eq_3)

lemma ve_sync_init_current_frame:
  assumes "ve_sync_init a (s, w) = Inr (r, s', w')"
  shows "current_frame s' = 0"
proof (cases "r = 0")
  case True
  with ve_sync_init_facts(1) [OF assms] show ?thesis
    by (auto simp: sync_init_inv_def)
next
  case False
  with ve_sync_init_facts(2) [OF assms] show ?thesis
    by (simp add: sync_zero_def)
qed

lemma ve_sync_shutdown_current_frame:
  "unat (current_frame (fst sw)) < 3 \<Longrightarrow> unat (current_frame (fst (ve_sync_shutdown sw))) < 3"
  by (cases sw) (simp add: ve_sync_shutdown_def sync_zero_def)

lemma sync_step_bound:
  assumes "unat (current_frame (fst sw)) < 3" and "sync_step a x sw = Inr sw'"
  shows "unat (current_frame (fst sw')) < 3"
proof (cases x)
  case Sync_Init
  with assms(2) obtain r s' w' where "ve_sync_init a sw = Inr (r, s', w')" "sw' = (s', w')"
    by (cases "ve_sync_init a sw") auto
  with ve_sync_init_current_frame [of a "fst sw" "snd sw" r s' w'] show ?thesis by simp
next
  case Sync_Advance
  with assms(2) show ?thesis
    by (auto simp: current_frame_advance advance_u32_bound)
next
  case Sync_Shutdown
  with assms ve_sync_shutdown_current_frame [of sw] show ?thesis by auto
qed

lemma sync_run_bound:
  "unat (current_frame (fst sw)) < 3 \<Longrightarrow> sync_run a xs sw = Inr sw' \<Longrightarrow>
   unat (current_frame (fst sw')) < 3"
proof (induction xs arbitrary: sw)
  case Nil
  then show ?case by simp
next
  case (Cons x xs)
  from Cons.prems(2) obtain sw1 where s: "sync_step a x sw = Inr sw1"
    and r: "sync_run a xs sw1 = Inr sw'"
    by (auto split: sum.splits)
  from sync_step_bound [OF Cons.prems(1) s] Cons.IH [OF _ r] show ?case by simp
qed

text \<open>
  C10. Initialisation leaves the current-frame index at 0 and an advance maps it to
  \<open>(current + 1) mod 3\<close>, so from an index below 3 (the static initial state has 0) every
  sequence of init, advance and shutdown calls ends with an index below 3. The getter by
  index returns NULL exactly for the indices from 3 on, and otherwise a slot below 3.
\<close>

theorem current_frame_in_bounds:
  "(unat (current_frame s) < VE_MAX_FRAMES_IN_FLIGHT \<longrightarrow>
      sync_run a xs (s, w) = Inr (s', w') \<longrightarrow>
      unat (ve_sync_get_current_frame_index s') < VE_MAX_FRAMES_IN_FLIGHT) \<and>
   (ve_sync_init a (s, w) = Inr (r, s1, w1) \<longrightarrow> current_frame s1 = 0) \<and>
   current_frame (ve_sync_advance_frame s) = (current_frame s + 1) mod 3 \<and>
   (ve_sync_get_frame idx = None \<longleftrightarrow> VE_MAX_FRAMES_IN_FLIGHT \<le> unat idx) \<and>
   (\<forall>n. ve_sync_get_frame idx = Some n \<longrightarrow> n < VE_MAX_FRAMES_IN_FLIGHT)"
  using sync_run_bound [of "(s, w)" a xs "(s', w')"] ve_sync_init_current_frame [of a s w r s1 w1]
  by (auto simp: ve_sync_get_current_frame_index_def current_frame_advance ve_sync_get_frame_def)

theorem current_frame_in_bounds_witness:
  "unat (current_frame sync_zero) < VE_MAX_FRAMES_IN_FLIGHT \<and>
   sync_run assert_default [Sync_Init, Sync_Advance, Sync_Advance, Sync_Advance, Sync_Advance]
     (sync_zero, world_example [- 4]) = Inr (sync_zero\<lparr>current_frame := 1\<rparr>, world_example []) \<and>
   unat (ve_sync_get_current_frame_index (sync_zero\<lparr>current_frame := 1\<rparr>)) < VE_MAX_FRAMES_IN_FLIGHT \<and>
   ve_sync_init assert_default (sync_zero, world_example [- 4]) =
     Inr (VK_ERROR_DEVICE_LOST, sync_zero, world_example []) \<and>
   ve_sync_get_frame 3 = None"
proof -
  have i: "ve_sync_init assert_default (sync_zero, world_example [- 4]) =
     Inr (VK_ERROR_DEVICE_LOST, sync_zero, world_example [])"
    by (simp add: sync_eval_defs)
  have r: "sync_run assert_default [Sync_Init, Sync_Advance, Sync_Advance, Sync_Advance, Sync_Advance]
     (sync_zero, world_example [- 4]) = Inr (sync_zero\<lparr>current_frame := 1\<rparr>, world_example [])"
    by (simp add: i ve_sync_advance_frame_def) (simp add: sync_zero_def)
  from current_frame_in_bounds [of sync_zero assert_default
      "[Sync_Init, Sync_Advance, Sync_Advance, Sync_Advance, Sync_Advance]"
      "world_example [- 4]" "sync_zero\<lparr>current_frame := 1\<rparr>" "world_example []"
      "VK_ERROR_DEVICE_LOST" sync_zero "world_example []" 3] i r
  show ?thesis by (simp add: sync_zero_def)
qed

section \<open>The swapchain: choosing present mode, format and extent\<close>

lemma find_eq_const:
  "find (\<lambda>m. m = c) xs = (if c \<in> set xs then Some c else None)"
  by (induction xs) auto

text \<open>
  C4. Whenever the assertion of \<open>ve_swapchain_choose_present_mode\<close> lets the call go on
  (the list is not empty, or the handler continues), the result is mailbox if triple
  buffering is asked for without v-sync and mailbox is listed; otherwise immediate if
  v-sync is off and immediate is listed; otherwise FIFO. The result is a function of the
  list and the two flags.
\<close>

theorem choose_present_mode_order:
  assumes "VE_ASSERT a (modes \<noteq> [])"
  shows "ve_swapchain_choose_present_mode a modes vsync_on triple =
         Inr (if triple \<and> \<not> vsync_on \<and> VK_PRESENT_MODE_MAILBOX_KHR \<in> set modes
              then VK_PRESENT_MODE_MAILBOX_KHR
              else if \<not> vsync_on \<and> VK_PRESENT_MODE_IMMEDIATE_KHR \<in> set modes
              then VK_PRESENT_MODE_IMMEDIATE_KHR
              else VK_PRESENT_MODE_FIFO_KHR)"
  using assms by (simp add: ve_swapchain_choose_present_mode_def find_eq_const)

theorem choose_present_mode_order_witness:
  "VE_ASSERT assert_default ([VK_PRESENT_MODE_FIFO_KHR, VK_PRESENT_MODE_IMMEDIATE_KHR] \<noteq> []) \<and>
   ve_swapchain_choose_present_mode assert_default
     [VK_PRESENT_MODE_FIFO_KHR, VK_PRESENT_MODE_IMMEDIATE_KHR] False True =
     Inr VK_PRESENT_MODE_IMMEDIATE_KHR"
proof -
  have h: "VE_ASSERT assert_default ([VK_PRESENT_MODE_FIFO_KHR, VK_PRESENT_MODE_IMMEDIATE_KHR] \<noteq> [])"
    by (simp add: VE_ASSERT_def)
  show ?thesis
    using h choose_present_mode_order [OF h, of False True] by simp
qed

lemma find_surface_format:
  "find (\<lambda>f. format f = format p \<and> colorSpace f = colorSpace p) fmts =
   (if (p :: VkSurfaceFormatKHR) \<in> set fmts then Some p else None)"
proof -
  have "(\<lambda>f :: VkSurfaceFormatKHR. format f = format p \<and> colorSpace f = colorSpace p) =
        (\<lambda>f. f = p)"
    by (auto simp: fun_eq_iff)
  then show ?thesis by (simp add: find_eq_const)
qed

text \<open>
  C5. For a non-empty list of surface formats: the preferred format if one is given and it
  is in the list (same format and same colour space); otherwise B8G8R8A8_SRGB with the sRGB
  non-linear colour space if that pair is in the list; otherwise the first format of the
  list.
\<close>

theorem choose_surface_format_order:
  assumes "fmts \<noteq> []"
  shows "ve_swapchain_choose_surface_format a fmts preferred =
         Inr (case preferred of
                Some p \<Rightarrow>
                  if p \<in> set fmts then p
                  else if srgb_format \<in> set fmts then srgb_format else hd fmts
              | None \<Rightarrow> if srgb_format \<in> set fmts then srgb_format else hd fmts)"
proof -
  have s: "find (\<lambda>f. format f = 50 \<and> colorSpace f = 0) fmts =
           (if srgb_format \<in> set fmts then Some srgb_format else None)"
    using find_surface_format [of srgb_format fmts] by (simp add: srgb_format_def)
  from assms obtain f fs where "fmts = f # fs" by (cases fmts) auto
  then show ?thesis
    unfolding ve_swapchain_choose_surface_format_def s find_surface_format
    by (simp add: VE_ASSERT_def split: option.splits)
qed

theorem choose_surface_format_order_witness:
  "[\<lparr>format = 44, colorSpace = 0\<rparr>, srgb_format] \<noteq> [] \<and>
   ve_swapchain_choose_surface_format assert_default
     [\<lparr>format = 44, colorSpace = 0\<rparr>, srgb_format] (Some \<lparr>format = 37, colorSpace = 0\<rparr>) =
     Inr srgb_format"
proof -
  have h: "[\<lparr>format = 44, colorSpace = 0\<rparr>, srgb_format] \<noteq> []" by simp
  show ?thesis
    using h choose_surface_format_order [OF h, of assert_default "Some \<lparr>format = 37, colorSpace = 0\<rparr>"]
    by (simp add: srgb_format_def)
qed

text \<open>
  The conversion to \<open>float\<close> is exact up to \<open>2^24\<close> and never drops a larger value below
  \<open>2^24\<close>. So for a surface whose minimum and maximum extents are at most \<open>2^24\<close> the
  extent is the fixed current extent if there is one, and otherwise the requested size
  clamped into the range, whatever the requested size.
\<close>

lemma bit_length_upper: "n < 2 ^ bit_length n"
proof (induction n rule: bit_length.induct)
  case (1 n)
  show ?case
  proof (cases "n = 0")
    case True
    then show ?thesis by (simp add: bit_length.simps)
  next
    case False
    with 1 have "n div 2 < 2 ^ bit_length (n div 2)" by simp
    then have "n < 2 * 2 ^ bit_length (n div 2)" by linarith
    with False show ?thesis by (simp add: bit_length.simps [of n])
  qed
qed

lemma bit_length_lower: "n \<noteq> 0 \<Longrightarrow> 2 ^ (bit_length n - 1) \<le> n"
proof (induction n rule: bit_length.induct)
  case (1 n)
  from "1.prems" have bl: "bit_length n = Suc (bit_length (n div 2))"
    by (simp add: bit_length.simps [of n])
  show ?case
  proof (cases "n div 2 = 0")
    case True
    with "1.prems" bl show ?thesis by (simp add: bit_length.simps [of 0])
  next
    case False
    with 1 have ih: "2 ^ (bit_length (n div 2) - 1) \<le> n div 2" by simp
    from False have "bit_length (n div 2) \<noteq> 0" by (simp add: bit_length.simps [of "n div 2"])
    then obtain m where m: "bit_length (n div 2) = Suc m" by (cases "bit_length (n div 2)") auto
    from ih m have "2 * 2 ^ m \<le> 2 * (n div 2)" by simp
    also have "\<dots> \<le> n" by simp
    finally show ?thesis using bl m by simp
  qed
qed

lemma float_of_u32_small: "unat x < 2 ^ 24 \<Longrightarrow> float_of_u32 x = unat x"
  by (simp add: float_of_u32_def)

lemma float_of_u32_large:
  assumes "2 ^ 24 \<le> unat x"
  shows "2 ^ 24 \<le> float_of_u32 x"
proof -
  define n where "n = unat x"
  define e where "e = bit_length n - 24"
  define q where "q = n div 2 ^ e"
  from assms have n24: "(2::nat) ^ 24 \<le> n" and n0: "n \<noteq> 0" by (simp_all add: n_def)
  from n24 bit_length_upper [of n] have "(2::nat) ^ 24 < 2 ^ bit_length n" by linarith
  then have b: "24 < bit_length n" by (simp only: power_strict_increasing_iff)
  then have e1: "1 \<le> e" and be: "bit_length n - 1 = 23 + e" by (simp_all add: e_def)
  from bit_length_lower [OF n0] be have "2 ^ 23 * 2 ^ e \<le> n" by (simp add: power_add)
  then have "2 ^ 23 \<le> q" unfolding q_def
    by (metis div_le_mono nonzero_mult_div_cancel_right power_not_zero zero_neq_numeral)
  then have "2 ^ 23 * 2 ^ e \<le> q * 2 ^ e" by simp
  moreover from e1 have "(2::nat) ^ 24 \<le> 2 ^ 23 * 2 ^ e"
    using power_increasing [of 1 e "2::nat"] by simp
  ultimately have q24: "2 ^ 24 \<le> q * 2 ^ e" by linarith
  have "q * 2 ^ e \<le> (if 2 ^ (e - 1) < n mod 2 ^ e \<or> (n mod 2 ^ e = 2 ^ (e - 1) \<and> odd q) then q + 1 else q) * 2 ^ e"
    by simp
  with q24 have "2 ^ 24 \<le> (if 2 ^ (e - 1) < n mod 2 ^ e \<or> (n mod 2 ^ e = 2 ^ (e - 1) \<and> odd q) then q + 1 else q) * 2 ^ e"
    by linarith
  moreover from n24 have "float_of_u32 x =
    (if 2 ^ (e - 1) < n mod 2 ^ e \<or> (n mod 2 ^ e = 2 ^ (e - 1) \<and> odd q) then q + 1 else q) * 2 ^ e"
    unfolding float_of_u32_def Let_def n_def [symmetric] e_def [symmetric] q_def [symmetric]
    by simp
  ultimately show ?thesis by simp
qed

lemma float_of_u32_2p24: "float_of_u32 16777216 = 16777216"
  by (simp add: float_of_u32_def bit_length.simps)

lemma float_of_u32_exact:
  assumes "unat x \<le> 2 ^ 24"
  shows "float_of_u32 x = unat x"
proof (cases "unat x < 2 ^ 24")
  case True
  then show ?thesis by (rule float_of_u32_small)
next
  case False
  with assms have "unat x = 16777216" by simp
  then have "unat x = unat (16777216 :: u32)" by simp
  then have "x = 16777216" by (simp only: word_unat_eq_iff)
  then show ?thesis by (simp add: float_of_u32_2p24)
qed

lemma unat_max_min:
  fixes a b :: u32
  shows "unat (max a b) = max (unat a) (unat b)" and "unat (min a b) = min (unat a) (unat b)"
  by (simp_all add: max_def min_def word_le_nat_alt)

lemma clamp_float_exact:
  assumes "unat lo \<le> 2 ^ 24" and "unat hi \<le> 2 ^ 24"
  shows "clamp_float lo hi x = Inr (max lo (min hi x))"
proof -
  have m: "min (float_of_u32 hi) (float_of_u32 x) = unat (min hi x)"
  proof (cases "unat x \<le> 2 ^ 24")
    case True
    with assms show ?thesis by (simp add: float_of_u32_exact unat_max_min)
  next
    case False
    then have "2 ^ 24 \<le> unat x" by simp
    from float_of_u32_large [OF this] assms(2) False show ?thesis
      by (simp add: float_of_u32_exact unat_max_min)
  qed
  have "max (float_of_u32 lo) (min (float_of_u32 hi) (float_of_u32 x)) = unat (max lo (min hi x))"
    unfolding m using assms(1) by (simp add: float_of_u32_exact unat_max_min)
  moreover have "unat (max lo (min hi x)) < 2 ^ 32"
    using unsigned_less [of "max lo (min hi x)", where ?'a = nat] by simp
  ultimately show ?thesis by (simp add: clamp_float_def u32_of_float_def)
qed

lemma choose_extent_exact_in_float_range:
  assumes "unat (width (minImageExtent caps)) \<le> 2 ^ 24"
    and "unat (width (maxImageExtent caps)) \<le> 2 ^ 24"
    and "unat (height (minImageExtent caps)) \<le> 2 ^ 24"
    and "unat (height (maxImageExtent caps)) \<le> 2 ^ 24"
  shows "ve_swapchain_choose_extent caps w h =
         Inr (if width (currentExtent caps) \<noteq> UINT32_MAX then currentExtent caps
              else \<lparr>width = max (width (minImageExtent caps)) (min (width (maxImageExtent caps)) w),
                     height = max (height (minImageExtent caps)) (min (height (maxImageExtent caps)) h)\<rparr>)"
  using assms by (simp add: ve_swapchain_choose_extent_def clamp_float_exact)

lemma float_of_u32_16777217: "float_of_u32 16777217 = 16777216"
  by (simp add: float_of_u32_def bit_length.simps)

lemma float_of_u32_1: "float_of_u32 1 = 1"
  by (simp add: float_of_u32_def)

lemma float_of_u32_4096: "float_of_u32 4096 = 4096"
  by (simp add: float_of_u32_def)

text \<open>
  C8 at a surface whose minimum and maximum width are both 16777217, for the requested
  width 16777217: the conversion to \<open>float\<close> rounds each of them to 16777216, and the
  extent the code returns is one below the surface's minimum.
\<close>

theorem choose_extent_rounds_below_minimum:
  "ve_swapchain_choose_extent caps_large 16777217 1 = Inr \<lparr>width = 16777216, height = 1\<rparr> \<and>
   (16777216 :: u32) < width (minImageExtent caps_large)"
  by (simp add: ve_swapchain_choose_extent_def clamp_float_def u32_of_float_def caps_large_def
      float_of_u32_16777217 float_of_u32_1 float_of_u32_4096)

section \<open>The swapchain: acquire and present\<close>

text \<open>
  C2, as the code has it. With a device, \<open>ve_swapchain_acquire_next_image\<close> returns
  \<open>VK_SUBOPTIMAL_KHR\<close> when the driver reports out-of-date, \<open>VK_SUCCESS\<close> when the driver
  reports suboptimal or success, and the driver's code otherwise; the out-of-date flag
  is set when the driver reports out-of-date or suboptimal and is left as it was otherwise.
\<close>

theorem acquire_next_image_outcomes:
  assumes "vk_device w \<noteq> VK_NULL_HANDLE"
  shows "map_sum id (\<lambda>(r, sc'). (r, out_of_date sc'))
           (ve_swapchain_acquire_next_image a w drv idx sc) =
         Inr (if drv = VK_ERROR_OUT_OF_DATE_KHR then VK_SUBOPTIMAL_KHR
              else if drv = VK_SUBOPTIMAL_KHR then VK_SUCCESS
              else drv,
              out_of_date sc \<or> drv = VK_ERROR_OUT_OF_DATE_KHR \<or> drv = VK_SUBOPTIMAL_KHR)"
  using assms
  by (simp add: ve_swapchain_acquire_next_image_def VE_ASSERT_def Let_def)

theorem acquire_next_image_outcomes_witness:
  "vk_device (world_example []) \<noteq> VK_NULL_HANDLE \<and>
   map_sum id (\<lambda>(r, sc'). (r, out_of_date sc'))
     (ve_swapchain_acquire_next_image assert_default (world_example [])
        VK_ERROR_OUT_OF_DATE_KHR 0 swapchain_zero) = Inr (VK_SUBOPTIMAL_KHR, True)"
proof -
  have h: "vk_device (world_example []) \<noteq> VK_NULL_HANDLE"
    by (simp add: world_example_def)
  show ?thesis
    using h acquire_next_image_outcomes [OF h, of assert_default VK_ERROR_OUT_OF_DATE_KHR 0 swapchain_zero]
    by simp
qed

text \<open>
  C2 as stated fails: a suboptimal acquire returns the same code as a plain success, and
  an out-of-date acquire returns \<open>VK_SUBOPTIMAL_KHR\<close>.
\<close>

theorem acquire_next_image_codes_collapse:
  "map_sum id fst (ve_swapchain_acquire_next_image assert_default (world_example [])
      VK_SUBOPTIMAL_KHR 0 swapchain_zero) = Inr VK_SUCCESS \<and>
   map_sum id fst (ve_swapchain_acquire_next_image assert_default (world_example [])
      VK_SUCCESS 0 swapchain_zero) = Inr VK_SUCCESS \<and>
   map_sum id fst (ve_swapchain_acquire_next_image assert_default (world_example [])
      VK_ERROR_OUT_OF_DATE_KHR 0 swapchain_zero) = Inr VK_SUBOPTIMAL_KHR"
  by (simp add: ve_swapchain_acquire_next_image_def VE_ASSERT_def world_example_def)

section \<open>The swapchain: image views and framebuffers\<close>

lemma fold_vk_destroy_map_le:
  assumes "\<forall>h. h \<notin> H \<longrightarrow> objects w h = objects w0 h" and "H \<subseteq> set hs" and "0 \<notin> H"
  shows "objects (fold vk_destroy hs w) \<subseteq>\<^sub>m objects w0"
  unfolding map_le_def
proof
  fix h assume "h \<in> dom (objects (fold vk_destroy hs w))"
  then have "\<not> (h \<noteq> 0 \<and> h \<in> set hs)" "objects (fold vk_destroy hs w) h = objects w h"
    by (auto simp: fold_vk_destroy_objects split: if_splits)
  with assms show "objects (fold vk_destroy hs w) h = objects w0 h" by auto
qed

lemma progress_zero_notin: "progress w0 k H w \<Longrightarrow> 0 \<notin> H"
  by (auto simp: progress_def)

lemma fold_vk_destroy_shrinks: "objects (fold vk_destroy hs w) \<subseteq>\<^sub>m objects w"
  by (rule fold_vk_destroy_map_le [where H = "set hs - {0}"]) auto

lemma fold_vk_destroy_fields [simp]:
  "handles_issued (fold vk_destroy hs w) = handles_issued w"
  "driver_results (fold vk_destroy hs w) = driver_results w"
  "alloc_results (fold vk_destroy hs w) = alloc_results w"
  "host_blocks (fold vk_destroy hs w) = host_blocks w"
  "blocks_issued (fold vk_destroy hs w) = blocks_issued w"
  by (induction hs arbitrary: w) (simp_all add: vk_destroy_def)

lemma ve_free_host_blocks: "host_blocks (ve_free addr w) \<subseteq> host_blocks w"
  by (auto simp: ve_free_def)

lemma ve_free_host_blocks_nonnull:
  "addr \<noteq> 0 \<Longrightarrow> host_blocks (ve_free addr w) = host_blocks w - {addr}"
  by (simp add: ve_free_def)

lemma vk_create_host_blocks:
  "vk_create obj old w = (r, h, w') \<Longrightarrow> host_blocks w' = host_blocks w"
  by (auto simp: vk_create_def next_result_def split: list.splits if_splits)

lemma create_image_views_loop_inv:
  assumes "create_image_views_loop i (sc, w) = Inr (r, sc', w')"
    and "image_views sc = Some (addr, views)" and "addr \<noteq> 0"
    and "progress w0 i (set (take i views)) w"
    and "\<forall>h\<in>set (take i views). objects w h = Some ImageView"
    and "distinct (take i views)"
    and "\<forall>j<i. j < length (driver_results w0) \<longrightarrow> driver_results w0 ! j = 0"
  shows "(r \<noteq> 0 \<longrightarrow> image_views sc' = None \<and> objects w' \<subseteq>\<^sub>m objects w0 \<and>
            host_blocks w' = host_blocks w - {addr} \<and>
            (\<exists>m<unat (image_count sc). m < length (driver_results w0) \<and>
                driver_results w0 ! m = r \<and>
                (\<forall>j<m. j < length (driver_results w0) \<longrightarrow> driver_results w0 ! j = 0))) \<and>
         (r = 0 \<longrightarrow> (\<exists>vs. image_views sc' = Some (addr, vs) \<and> length vs = length views \<and>
            host_blocks w' = host_blocks w \<and>
            (\<forall>j<max i (unat (image_count sc)).
                j < length (driver_results w0) \<longrightarrow> driver_results w0 ! j = 0) \<and>
            (\<forall>h\<in>set (take (max i (unat (image_count sc))) vs). objects w' h = Some ImageView) \<and>
            distinct (take (max i (unat (image_count sc))) vs))) \<and>
         out_of_date sc' = out_of_date sc \<and> image_count sc' = image_count sc"
  using assms
proof (induction "unat (image_count sc) - i" arbitrary: i sc w views)
  case 0
  then have "\<not> i < unat (image_count sc)" by simp
  with 0 show ?case
    by (auto simp: create_image_views_loop.simps [of i] max_def)
next
  case (Suc n)
  then have i: "i < unat (image_count sc)" by simp
  from Suc.prems(1) i Suc.prems(2) have il: "i < length views"
    by (auto simp: create_image_views_loop.simps [of i] split: sum.splits if_splits)
  obtain rc h w1 where c: "vk_create ImageView (views ! i) w = (rc, h, w1)"
    by (metis prod_cases3)
  note pc = progress_create [OF Suc.prems(4) c]
  note cc = vk_create_cases [OF c]
  note hb = vk_create_host_blocks [OF c]
  from Suc.prems(1) i il Suc.prems(2) c
  have step: "(if rc \<noteq> 0
               then Inr (rc, sc\<lparr>image_views := None\<rparr>,
                         ve_free addr (fold vk_destroy (take i (views[i := h])) w1))
               else create_image_views_loop (Suc i)
                      (sc\<lparr>image_views := Some (addr, views[i := h])\<rparr>, w1)) =
              Inr (r, sc', w')"
    by (auto simp: create_image_views_loop.simps [of i] split: sum.splits if_splits)
  show ?case
  proof (cases "rc = 0")
    case False
    with step have e: "r = rc" "sc' = sc\<lparr>image_views := None\<rparr>"
      "w' = ve_free addr (fold vk_destroy (take i (views[i := h])) w1)"
      by auto
    from pc False have p1: "progress w0 (Suc i) (set (take i views)) w1"
      and rk: "i < length (driver_results w0)" "driver_results w0 ! i = rc"
      by auto
    have t: "take i (views[i := h]) = take i views" by simp
    from p1 have "\<forall>x. x \<notin> set (take i views) \<longrightarrow> objects w1 x = objects w0 x"
      by (simp add: progress_def)
    from fold_vk_destroy_map_le [OF this _ progress_zero_notin [OF p1]]
    have le: "objects w' \<subseteq>\<^sub>m objects w0" unfolding e(3) t by simp
    have hw: "host_blocks w' = host_blocks w - {addr}"
      unfolding e(3) using Suc.prems(3) hb by (simp add: ve_free_host_blocks_nonnull)
    from rk i Suc.prems(7)
    have "\<exists>m<unat (image_count sc). m < length (driver_results w0) \<and>
            driver_results w0 ! m = rc \<and>
            (\<forall>j<m. j < length (driver_results w0) \<longrightarrow> driver_results w0 ! j = 0)"
      by blast
    with le hw e False show ?thesis by simp
  next
    case True
    with step have l: "create_image_views_loop (Suc i)
          (sc\<lparr>image_views := Some (addr, views[i := h])\<rparr>, w1) = Inr (r, sc', w')"
      by simp
    from pc True have p1: "progress w0 (Suc i) (insert h (set (take i views))) w1"
      and hn: "h \<noteq> 0"
      and z: "i < length (driver_results w0) \<longrightarrow> driver_results w0 ! i = 0"
      by auto
    from cc True have hh: "h = Suc (handles_issued w)"
      and o1: "objects w1 = (objects w)(h \<mapsto> ImageView)"
      by auto
    from Suc.prems(4) hh have fresh: "h \<notin> set (take i views)"
      by (auto simp: progress_def)
    have t: "take (Suc i) (views[i := h]) = take i views @ [h]"
      using il by (simp add: take_Suc_conv_app_nth)
    have p2: "progress w0 (Suc i) (set (take (Suc i) (views[i := h]))) w1"
      unfolding t using p1 by simp
    have k2: "\<forall>x\<in>set (take (Suc i) (views[i := h])). objects w1 x = Some ImageView"
      unfolding t using Suc.prems(5) o1 fresh by auto
    have d2: "distinct (take (Suc i) (views[i := h]))"
      unfolding t using Suc.prems(6) fresh by simp
    have z2: "\<forall>j<Suc i. j < length (driver_results w0) \<longrightarrow> driver_results w0 ! j = 0"
      using Suc.prems(7) z by (auto simp: less_Suc_eq)
    from Suc.hyps(2)
    have n: "n = unat (image_count (sc\<lparr>image_views := Some (addr, views[i := h])\<rparr>)) - Suc i"
      by simp
    from Suc.hyps(1) [OF n l _ Suc.prems(3) p2 k2 d2 z2] i hb
    show ?thesis by (simp add: max_def)
  qed
qed

lemma create_framebuffers_loop_inv:
  assumes "create_framebuffers_loop i (sc, w) = Inr (r, sc', w')"
    and "framebuffers sc = Some (addr, fbs)" and "addr \<noteq> 0"
    and "progress w0 i (set (take i fbs)) w"
    and "\<forall>h\<in>set (take i fbs). objects w h = Some Framebuffer"
    and "distinct (take i fbs)"
    and "\<forall>j<i. j < length (driver_results w0) \<longrightarrow> driver_results w0 ! j = 0"
  shows "(r \<noteq> 0 \<longrightarrow> framebuffers sc' = None \<and> objects w' \<subseteq>\<^sub>m objects w0 \<and>
            host_blocks w' = host_blocks w - {addr} \<and>
            (\<exists>m<unat (image_count sc). m < length (driver_results w0) \<and>
                driver_results w0 ! m = r \<and>
                (\<forall>j<m. j < length (driver_results w0) \<longrightarrow> driver_results w0 ! j = 0))) \<and>
         (r = 0 \<longrightarrow> (\<exists>vs. framebuffers sc' = Some (addr, vs) \<and> length vs = length fbs \<and>
            host_blocks w' = host_blocks w \<and>
            (\<forall>j<max i (unat (image_count sc)).
                j < length (driver_results w0) \<longrightarrow> driver_results w0 ! j = 0) \<and>
            (\<forall>h\<in>set (take (max i (unat (image_count sc))) vs). objects w' h = Some Framebuffer) \<and>
            distinct (take (max i (unat (image_count sc))) vs))) \<and>
         out_of_date sc' = out_of_date sc \<and> image_count sc' = image_count sc"
  using assms
proof (induction "unat (image_count sc) - i" arbitrary: i sc w fbs)
  case 0
  then have "\<not> i < unat (image_count sc)" by simp
  with 0 show ?case
    by (auto simp: create_framebuffers_loop.simps [of i] max_def)
next
  case (Suc n)
  then have i: "i < unat (image_count sc)" by simp
  from Suc.prems(1) i Suc.prems(2) have il: "i < length fbs"
    by (auto simp: create_framebuffers_loop.simps [of i] split: sum.splits if_splits)
  obtain rc h w1 where c: "vk_create Framebuffer (fbs ! i) w = (rc, h, w1)"
    by (metis prod_cases3)
  note pc = progress_create [OF Suc.prems(4) c]
  note cc = vk_create_cases [OF c]
  note hb = vk_create_host_blocks [OF c]
  from Suc.prems(1) i il Suc.prems(2) c
  have step: "(if rc \<noteq> 0
               then Inr (rc, sc\<lparr>framebuffers := None\<rparr>,
                         ve_free addr (fold vk_destroy (take i (fbs[i := h])) w1))
               else create_framebuffers_loop (Suc i)
                      (sc\<lparr>framebuffers := Some (addr, fbs[i := h])\<rparr>, w1)) =
              Inr (r, sc', w')"
    by (auto simp: create_framebuffers_loop.simps [of i] split: sum.splits if_splits)
  show ?case
  proof (cases "rc = 0")
    case False
    with step have e: "r = rc" "sc' = sc\<lparr>framebuffers := None\<rparr>"
      "w' = ve_free addr (fold vk_destroy (take i (fbs[i := h])) w1)"
      by auto
    from pc False have p1: "progress w0 (Suc i) (set (take i fbs)) w1"
      and rk: "i < length (driver_results w0)" "driver_results w0 ! i = rc"
      by auto
    have t: "take i (fbs[i := h]) = take i fbs" by simp
    from p1 have "\<forall>x. x \<notin> set (take i fbs) \<longrightarrow> objects w1 x = objects w0 x"
      by (simp add: progress_def)
    from fold_vk_destroy_map_le [OF this _ progress_zero_notin [OF p1]]
    have le: "objects w' \<subseteq>\<^sub>m objects w0" unfolding e(3) t by simp
    have hw: "host_blocks w' = host_blocks w - {addr}"
      unfolding e(3) using Suc.prems(3) hb by (simp add: ve_free_host_blocks_nonnull)
    from rk i Suc.prems(7)
    have "\<exists>m<unat (image_count sc). m < length (driver_results w0) \<and>
            driver_results w0 ! m = rc \<and>
            (\<forall>j<m. j < length (driver_results w0) \<longrightarrow> driver_results w0 ! j = 0)"
      by blast
    with le hw e False show ?thesis by simp
  next
    case True
    with step have l: "create_framebuffers_loop (Suc i)
          (sc\<lparr>framebuffers := Some (addr, fbs[i := h])\<rparr>, w1) = Inr (r, sc', w')"
      by simp
    from pc True have p1: "progress w0 (Suc i) (insert h (set (take i fbs))) w1"
      and hn: "h \<noteq> 0"
      and z: "i < length (driver_results w0) \<longrightarrow> driver_results w0 ! i = 0"
      by auto
    from cc True have hh: "h = Suc (handles_issued w)"
      and o1: "objects w1 = (objects w)(h \<mapsto> Framebuffer)"
      by auto
    from Suc.prems(4) hh have fresh: "h \<notin> set (take i fbs)"
      by (auto simp: progress_def)
    have t: "take (Suc i) (fbs[i := h]) = take i fbs @ [h]"
      using il by (simp add: take_Suc_conv_app_nth)
    have p2: "progress w0 (Suc i) (set (take (Suc i) (fbs[i := h]))) w1"
      unfolding t using p1 by simp
    have k2: "\<forall>x\<in>set (take (Suc i) (fbs[i := h])). objects w1 x = Some Framebuffer"
      unfolding t using Suc.prems(5) o1 fresh by auto
    have d2: "distinct (take (Suc i) (fbs[i := h]))"
      unfolding t using Suc.prems(6) fresh by simp
    have z2: "\<forall>j<Suc i. j < length (driver_results w0) \<longrightarrow> driver_results w0 ! j = 0"
      using Suc.prems(7) z by (auto simp: less_Suc_eq)
    from Suc.hyps(2)
    have n: "n = unat (image_count (sc\<lparr>framebuffers := Some (addr, fbs[i := h])\<rparr>)) - Suc i"
      by simp
    from Suc.hyps(1) [OF n l _ Suc.prems(3) p2 k2 d2 z2] i hb
    show ?thesis by (simp add: max_def)
  qed
qed

lemma allocation_succeeds_iff:
  "ve_allocate n w = (addr, w1) \<Longrightarrow> allocation_succeeds n w \<longleftrightarrow> addr \<noteq> 0"
  by (simp add: allocation_succeeds_def)

lemma allocation_succeeds_cong:
  "alloc_results w1 = alloc_results w \<Longrightarrow> allocation_succeeds n w1 = allocation_succeeds n w"
  by (auto simp: allocation_succeeds_def ve_allocate_def new_block_def split: list.splits)

lemma ve_allocate_fst_cong:
  "alloc_results w1 = alloc_results w \<Longrightarrow> blocks_issued w1 = blocks_issued w \<Longrightarrow>
   fst (ve_allocate n w1) = fst (ve_allocate n w)"
  by (auto simp: ve_allocate_def new_block_def split: list.splits)

text \<open>How the result of a run of creations is read off the driver's answers.\<close>

lemma result_from_answers:
  assumes "r \<noteq> 0 \<longrightarrow> (\<exists>m<n. m < length rs \<and> rs ! m = r \<and> (\<forall>j<m. j < length rs \<longrightarrow> rs ! j = 0))"
    and "r = 0 \<longrightarrow> (\<forall>j<n. j < length rs \<longrightarrow> rs ! j = 0)"
  shows "(r = 0 \<longleftrightarrow> (\<forall>x\<in>set (take n rs). x = 0)) \<and> (\<forall>i. first_failure rs n i \<longrightarrow> r = rs ! i)"
proof (cases "r = 0")
  case True
  with assms(2) have a: "\<forall>j<n. j < length rs \<longrightarrow> rs ! j = 0" by simp
  then have "\<forall>x\<in>set (take n rs). x = 0" by (simp add: ball_take_nth)
  moreover from a have "\<not> first_failure rs n i" for i by (auto simp: first_failure_def)
  ultimately show ?thesis using True by simp
next
  case False
  with assms(1) obtain m where m: "m < n" "m < length rs" "rs ! m = r"
    "\<forall>j<m. j < length rs \<longrightarrow> rs ! j = 0"
    by blast
  with False have "\<not> (\<forall>x\<in>set (take n rs). x = 0)" by (auto simp: ball_take_nth)
  moreover have "r = rs ! i" if f: "first_failure rs n i" for i
  proof -
    from f have i: "i < length rs" "rs ! i \<noteq> 0" "\<forall>j<i. rs ! j = 0"
      by (auto simp: first_failure_def)
    have "\<not> i < m" using m(4) i(1,2) by auto
    moreover have "\<not> m < i" using i(3) m(3) False by auto
    ultimately have "i = m" by simp
    with m(3) show ?thesis by simp
  qed
  ultimately show ?thesis using False by simp
qed

lemma ve_swapchain_create_image_views_result:
  assumes "ve_swapchain_create_image_views a (sc, w) = Inr (r, sc', w')"
  shows "(r = 0 \<longleftrightarrow> allocation_succeeds (unat (image_count sc) * 8) w \<and>
            (\<forall>x\<in>set (take (unat (image_count sc)) (driver_results w)). x = 0)) \<and>
         (\<not> allocation_succeeds (unat (image_count sc) * 8) w \<longrightarrow>
            r = VK_ERROR_OUT_OF_HOST_MEMORY) \<and>
         (allocation_succeeds (unat (image_count sc) * 8) w \<longrightarrow>
            (\<forall>i. first_failure (driver_results w) (unat (image_count sc)) i \<longrightarrow>
                 r = driver_results w ! i)) \<and>
         (r \<noteq> 0 \<longrightarrow> image_views sc' = None \<and> objects w' \<subseteq>\<^sub>m objects w \<and>
            host_blocks w' \<subseteq> host_blocks w) \<and>
         (r \<noteq> 0 \<and> allocation_succeeds (unat (image_count sc) * 8) w \<longrightarrow>
            fst (ve_allocate (unat (image_count sc) * 8) w) \<notin> host_blocks w') \<and>
         (r = 0 \<longrightarrow> (\<exists>addr vs. image_views sc' = Some (addr, vs) \<and> addr \<in> host_blocks w' \<and>
            length vs = unat (image_count sc) \<and>
            (\<forall>h\<in>set vs. objects w' h = Some ImageView) \<and> distinct vs)) \<and>
         out_of_date sc' = out_of_date sc \<and> image_count sc' = image_count sc"
proof -
  let ?n = "unat (image_count sc)"
  obtain addr w1 where al: "ve_allocate (?n * 8) w = (addr, w1)"
    by fastforce
  note f = ve_allocate_fields [OF al]
  note ok = allocation_succeeds_iff [OF al]
  show ?thesis
  proof (cases "addr = 0")
    case True
    with assms al have e: "r = VK_ERROR_OUT_OF_HOST_MEMORY" "sc' = sc\<lparr>image_views := None\<rparr>"
      "w' = w1"
      by (auto simp: ve_swapchain_create_image_views_def split: if_splits)
    with f True ok show ?thesis by simp
  next
    case False
    let ?views = "replicate ?n (junk w1)"
    let ?sc0 = "sc\<lparr>image_views := Some (addr, ?views)\<rparr>"
    from assms al False have l: "create_image_views_loop 0 (?sc0, w1) = Inr (r, sc', w')"
      by (auto simp: ve_swapchain_create_image_views_def split: if_splits)
    have p: "progress w1 0 (set (take 0 ?views)) w1" using progress_refl [of w1] by simp
    from create_image_views_loop_inv [OF l _ False p]
    have *: "(r \<noteq> 0 \<longrightarrow> image_views sc' = None \<and> objects w' \<subseteq>\<^sub>m objects w1 \<and>
            host_blocks w' = host_blocks w1 - {addr} \<and>
            (\<exists>m<?n. m < length (driver_results w1) \<and> driver_results w1 ! m = r \<and>
                (\<forall>j<m. j < length (driver_results w1) \<longrightarrow> driver_results w1 ! j = 0))) \<and>
         (r = 0 \<longrightarrow> (\<exists>vs. image_views sc' = Some (addr, vs) \<and> length vs = ?n \<and>
            host_blocks w' = host_blocks w1 \<and>
            (\<forall>j<?n. j < length (driver_results w1) \<longrightarrow> driver_results w1 ! j = 0) \<and>
            (\<forall>h\<in>set (take ?n vs). objects w' h = Some ImageView) \<and>
            distinct (take ?n vs))) \<and>
         out_of_date sc' = out_of_date sc \<and> image_count sc' = image_count sc"
      by simp
    from * have ra: "(r = 0 \<longleftrightarrow> (\<forall>x\<in>set (take ?n (driver_results w)). x = 0)) \<and>
        (\<forall>i. first_failure (driver_results w) ?n i \<longrightarrow> r = driver_results w ! i)"
      unfolding f(2) by (intro result_from_answers) blast+
    from * False have hb: "r \<noteq> 0 \<longrightarrow> host_blocks w' \<subseteq> host_blocks w"
      and ha: "r = 0 \<longrightarrow> addr \<in> host_blocks w'"
      unfolding f(6) by auto
    from * al have hc: "r \<noteq> 0 \<longrightarrow> fst (ve_allocate (?n * 8) w) \<notin> host_blocks w'"
      by simp
    from * ra hb ha hc False ok show ?thesis unfolding f(1) by auto
  qed
qed

lemma destroy_all_fields:
  assumes "destroy_all n xs w = Inr w1"
  shows "objects w1 \<subseteq>\<^sub>m objects w" and "driver_results w1 = driver_results w"
    and "vk_device w1 = vk_device w" and "alloc_results w1 = alloc_results w"
    and "host_blocks w1 = host_blocks w" and "blocks_issued w1 = blocks_issued w"
proof -
  from assms have e: "w1 = fold vk_destroy (take n xs) w"
    by (simp add: destroy_all_def split: if_splits)
  show "objects w1 \<subseteq>\<^sub>m objects w" unfolding e by (rule fold_vk_destroy_shrinks)
  show "driver_results w1 = driver_results w" and "vk_device w1 = vk_device w"
    and "alloc_results w1 = alloc_results w" and "host_blocks w1 = host_blocks w"
    and "blocks_issued w1 = blocks_issued w"
    unfolding e by simp_all
qed

lemma map_sum_eq_Inr: "map_sum f g x = Inr y \<longleftrightarrow> (\<exists>z. x = Inr z \<and> y = g z)"
  by (cases x) auto

lemma release_owned_framebuffers_cases:
  assumes "release_owned_framebuffers sc w = Inr w1"
  obtains "w1 = w"
  | addr fbs w2 where "destroy_all (unat (image_count sc)) fbs w = Inr w2" "w1 = ve_free addr w2"
  using assms
  by (auto simp: release_owned_framebuffers_def map_sum_eq_Inr split: option.splits if_splits)

lemma release_owned_framebuffers_fields:
  assumes "release_owned_framebuffers sc w = Inr w1"
  shows "objects w1 \<subseteq>\<^sub>m objects w" and "driver_results w1 = driver_results w"
    and "vk_device w1 = vk_device w" and "alloc_results w1 = alloc_results w"
    and "host_blocks w1 \<subseteq> host_blocks w" and "blocks_issued w1 = blocks_issued w"
proof -
  have "objects w1 \<subseteq>\<^sub>m objects w \<and> driver_results w1 = driver_results w \<and>
        vk_device w1 = vk_device w \<and> alloc_results w1 = alloc_results w \<and>
        host_blocks w1 \<subseteq> host_blocks w \<and> blocks_issued w1 = blocks_issued w"
    using assms
  proof (cases rule: release_owned_framebuffers_cases)
    case 1
    then show ?thesis by simp
  next
    case (2 addr fbs w2)
    from destroy_all_fields [OF 2(1)] ve_free_host_blocks [of addr w2] show ?thesis
      unfolding 2(2) by simp
  qed
  then show "objects w1 \<subseteq>\<^sub>m objects w" and "driver_results w1 = driver_results w"
    and "vk_device w1 = vk_device w" and "alloc_results w1 = alloc_results w"
    and "host_blocks w1 \<subseteq> host_blocks w" and "blocks_issued w1 = blocks_issued w"
    by simp_all
qed

lemma ve_swapchain_create_framebuffers_result:
  assumes "ve_swapchain_create_framebuffers a render_pass depth_view (sc, w) = Inr (r, sc', w')"
  shows "(r = 0 \<longleftrightarrow> allocation_succeeds (unat (image_count sc) * 8) w \<and>
            (\<forall>x\<in>set (take (unat (image_count sc)) (driver_results w)). x = 0)) \<and>
         (\<not> allocation_succeeds (unat (image_count sc) * 8) w \<longrightarrow>
            r = VK_ERROR_OUT_OF_HOST_MEMORY) \<and>
         (allocation_succeeds (unat (image_count sc) * 8) w \<longrightarrow>
            (\<forall>i. first_failure (driver_results w) (unat (image_count sc)) i \<longrightarrow>
                 r = driver_results w ! i)) \<and>
         (r \<noteq> 0 \<longrightarrow> framebuffers sc' = None \<and> objects w' \<subseteq>\<^sub>m objects w \<and>
            host_blocks w' \<subseteq> host_blocks w) \<and>
         (r \<noteq> 0 \<and> allocation_succeeds (unat (image_count sc) * 8) w \<longrightarrow>
            fst (ve_allocate (unat (image_count sc) * 8) w) \<notin> host_blocks w') \<and>
         (r = 0 \<longrightarrow> (\<exists>addr fbs. framebuffers sc' = Some (addr, fbs) \<and> addr \<in> host_blocks w' \<and>
            length fbs = unat (image_count sc) \<and>
            (\<forall>h\<in>set fbs. objects w' h = Some Framebuffer) \<and> distinct fbs)) \<and>
         out_of_date sc' = out_of_date sc \<and> image_count sc' = image_count sc"
proof -
  let ?n = "unat (image_count sc)"
  from assms obtain w1 where d: "release_owned_framebuffers sc w = Inr w1"
    by (auto simp: ve_swapchain_create_framebuffers_def split: if_splits sum.splits)
  note ds = release_owned_framebuffers_fields [OF d]
  obtain addr w2 where al: "ve_allocate (?n * 8) w1 = (addr, w2)"
    by fastforce
  note f = ve_allocate_fields [OF al]
  have ok: "allocation_succeeds (?n * 8) w \<longleftrightarrow> addr \<noteq> 0"
    using allocation_succeeds_iff [OF al] allocation_succeeds_cong [OF ds(4)] by simp
  show ?thesis
  proof (cases "addr = 0")
    case True
    with assms d al have e: "r = VK_ERROR_OUT_OF_HOST_MEMORY" "sc' = sc\<lparr>framebuffers := None\<rparr>"
      "w' = w2"
      by (auto simp: ve_swapchain_create_framebuffers_def split: if_splits)
    with f True ok ds(1,5) show ?thesis by simp
  next
    case False
    let ?fbs = "replicate ?n (junk w2)"
    let ?sc0 = "sc\<lparr>framebuffers := Some (addr, ?fbs), g_owns_framebuffers := True\<rparr>"
    from assms d al False have l: "create_framebuffers_loop 0 (?sc0, w2) = Inr (r, sc', w')"
      by (auto simp: ve_swapchain_create_framebuffers_def split: if_splits)
    have p: "progress w2 0 (set (take 0 ?fbs)) w2" using progress_refl [of w2] by simp
    from create_framebuffers_loop_inv [OF l _ False p]
    have *: "(r \<noteq> 0 \<longrightarrow> framebuffers sc' = None \<and> objects w' \<subseteq>\<^sub>m objects w2 \<and>
            host_blocks w' = host_blocks w2 - {addr} \<and>
            (\<exists>m<?n. m < length (driver_results w2) \<and> driver_results w2 ! m = r \<and>
                (\<forall>j<m. j < length (driver_results w2) \<longrightarrow> driver_results w2 ! j = 0))) \<and>
         (r = 0 \<longrightarrow> (\<exists>fbs. framebuffers sc' = Some (addr, fbs) \<and> length fbs = ?n \<and>
            host_blocks w' = host_blocks w2 \<and>
            (\<forall>j<?n. j < length (driver_results w2) \<longrightarrow> driver_results w2 ! j = 0) \<and>
            (\<forall>h\<in>set (take ?n fbs). objects w' h = Some Framebuffer) \<and>
            distinct (take ?n fbs))) \<and>
         out_of_date sc' = out_of_date sc \<and> image_count sc' = image_count sc"
      by simp
    have dr: "driver_results w2 = driver_results w" using f(2) ds(2) by simp
    from * have ra: "(r = 0 \<longleftrightarrow> (\<forall>x\<in>set (take ?n (driver_results w)). x = 0)) \<and>
        (\<forall>i. first_failure (driver_results w) ?n i \<longrightarrow> r = driver_results w ! i)"
      unfolding dr by (intro result_from_answers) blast+
    from * False ds(5) have hb: "r \<noteq> 0 \<longrightarrow> host_blocks w' \<subseteq> host_blocks w"
      and ha: "r = 0 \<longrightarrow> addr \<in> host_blocks w'"
      unfolding f(6) by auto
    have le: "objects w' \<subseteq>\<^sub>m objects w" if "r \<noteq> 0"
      using * that ds(1) f(1) map_le_trans by metis
    have "fst (ve_allocate (?n * 8) w) = addr"
      using ve_allocate_fst_cong [OF ds(4) ds(6), of "?n * 8"] al by simp
    with * have hc: "r \<noteq> 0 \<longrightarrow> fst (ve_allocate (?n * 8) w) \<notin> host_blocks w'"
      by simp
    from * ra hb ha hc le False ok show ?thesis by auto
  qed
qed





section \<open>The swapchain: the out-of-date flag\<close>

lemma ve_swapchain_destroy_flag:
  assumes "ve_swapchain_destroy (sc, w) = Inr (sc', w')"
  shows "out_of_date sc' = out_of_date sc"
  using assms
  by (auto simp: ve_swapchain_destroy_def split: sum.splits)

lemma ve_swapchain_set_framebuffers_flag:
  assumes "ve_swapchain_set_framebuffers fbs cnt owns (sc, w) = Inr (sc', w')"
  shows "out_of_date sc' = out_of_date sc"
  using assms
  by (auto simp: ve_swapchain_set_framebuffers_def split: sum.splits)

lemma swapchain_build_flag:
  assumes "swapchain_build a sf ext (sc, w) = Inr (r, sc', w')"
  shows "(r \<noteq> 0 \<longrightarrow> out_of_date sc' = out_of_date sc) \<and> (r = 0 \<longrightarrow> \<not> out_of_date sc')"
proof -
  obtain rc h w1 where c: "vk_create Swapchain (swapchain sc) w = (rc, h, w1)"
    by (metis prod_cases3)
  show ?thesis
  proof (cases "rc = 0")
    case False
    with assms c show ?thesis by (auto simp: swapchain_build_def)
  next
    case True
    obtain addr w2 where al: "ve_allocate (length (driver_images w1) * 8) w1 = (addr, w2)"
      by fastforce
    let ?sc2 = "sc\<lparr>swapchain := h, swapchain_format := format sf, extent := ext,
                    images := (if addr = 0 then None else Some (addr, driver_images w2)),
                    image_count := of_nat (length (driver_images w2))\<rparr>"
    from assms c True al obtain r2 sc3 w3 where
      v: "ve_swapchain_create_image_views a (?sc2, w2) = Inr (r2, sc3, w3)"
      by (auto simp: swapchain_build_def Let_def split: sum.splits)
    from ve_swapchain_create_image_views_result [OF v]
    have f3: "out_of_date sc3 = out_of_date sc" by simp
    show ?thesis
    proof (cases "r2 = 0")
      case True
      with assms c \<open>rc = 0\<close> al v show ?thesis
        by (auto simp: swapchain_build_def Let_def)
    next
      case False
      with assms c \<open>rc = 0\<close> al v obtain w4 where
        "ve_swapchain_destroy (sc3, w3) = Inr (sc', w4)" "r = r2"
        by (auto simp: swapchain_build_def Let_def split: sum.splits)
      with ve_swapchain_destroy_flag [of sc3 w3 sc' w4] f3 False show ?thesis by simp
    qed
  qed
qed

lemma ve_swapchain_create_flag:
  assumes "ve_swapchain_create a config (sc, w) = Inr (r, sc', w')"
  shows "(r \<noteq> 0 \<longrightarrow> out_of_date sc' = out_of_date sc) \<and> (r = 0 \<longrightarrow> \<not> out_of_date sc')"
proof -
  from assms obtain sc1 w1 where
    d: "(if swapchain sc \<noteq> 0 then ve_swapchain_destroy (sc, w) else Inr (sc, w)) = Inr (sc1, w1)"
    by (auto simp: ve_swapchain_create_def split: if_splits sum.splits)
  then have f1: "out_of_date sc1 = out_of_date sc"
    using ve_swapchain_destroy_flag [of sc w sc1 w1] by (auto split: if_splits)
  from assms d obtain sf ext where "swapchain_build a sf ext (sc1, w1) = Inr (r, sc', w')"
    by (auto simp: ve_swapchain_create_def Let_def split: if_splits sum.splits)
  from swapchain_build_flag [OF this] f1 show ?thesis by simp
qed

lemma swapchain_step_clears_flag:
  assumes "swapchain_step a x (sc, w) = Inr (r, sc', w')"
    and "out_of_date sc" and "\<not> out_of_date sc'"
  shows "((\<exists>config. x = Op_Create config \<or> x = Op_Recreate config) \<and> r = Some VK_SUCCESS) \<or>
         (\<exists>drv. x = Op_Present drv \<and> drv \<noteq> VK_ERROR_OUT_OF_DATE_KHR \<and>
                drv \<noteq> VK_SUBOPTIMAL_KHR \<and> r = Some drv)"
proof (cases x)
  case (Op_Create config)
  with assms(1) obtain rr where "ve_swapchain_create a config (sc, w) = Inr (rr, sc', w')"
    "r = Some rr"
    by (cases "ve_swapchain_create a config (sc, w)") auto
  with ve_swapchain_create_flag [of a config sc w rr sc' w'] assms(2,3) Op_Create
  show ?thesis by auto
next
  case (Op_Recreate config)
  with assms(1) obtain rr where "ve_swapchain_create a config (sc, w) = Inr (rr, sc', w')"
    "r = Some rr"
    by (cases "ve_swapchain_create a config (sc, w)") (auto simp: ve_swapchain_recreate_def)
  with ve_swapchain_create_flag [of a config sc w rr sc' w'] assms(2,3) Op_Recreate
  show ?thesis by auto
next
  case Op_Destroy
  with assms(1) have "ve_swapchain_destroy (sc, w) = Inr (sc', w')"
    by (cases "ve_swapchain_destroy (sc, w)") auto
  with ve_swapchain_destroy_flag [of sc w sc' w'] assms(2,3) show ?thesis by simp
next
  case (Op_Acquire drv idx)
  with assms show ?thesis
    by (auto simp: ve_swapchain_acquire_next_image_def Let_def split: if_splits)
next
  case (Op_Present drv)
  with assms show ?thesis
    by (auto simp: ve_swapchain_present_def split: if_splits)
next
  case (Op_Set_Framebuffers fbs cnt owns)
  with assms(1) have "ve_swapchain_set_framebuffers fbs cnt owns (sc, w) = Inr (sc', w')"
    by (cases "ve_swapchain_set_framebuffers fbs cnt owns (sc, w)") auto
  with ve_swapchain_set_framebuffers_flag [of fbs cnt owns sc w sc' w'] assms(2,3)
  show ?thesis by simp
next
  case Op_Create_Image_Views
  with assms(1) obtain rr where "ve_swapchain_create_image_views a (sc, w) = Inr (rr, sc', w')"
    by (cases "ve_swapchain_create_image_views a (sc, w)") auto
  with ve_swapchain_create_image_views_result [of a sc w rr sc' w'] assms(2,3)
  show ?thesis by simp
next
  case (Op_Create_Framebuffers render_pass depth_view)
  with assms(1) obtain rr where
    "ve_swapchain_create_framebuffers a render_pass depth_view (sc, w) = Inr (rr, sc', w')"
    by (cases "ve_swapchain_create_framebuffers a render_pass depth_view (sc, w)") auto
  with ve_swapchain_create_framebuffers_result [of a render_pass depth_view sc w rr sc' w']
    assms(2,3)
  show ?thesis by simp
qed

text \<open>
  C1, as the code has it. In every sequence of calls, a call that turns the out-of-date
  flag from true to false is a create or recreate that returned \<open>VK_SUCCESS\<close>, or a
  present for which the driver reported neither out-of-date nor suboptimal. Destroy,
  acquire, setting framebuffers and creating views or framebuffers never clear the flag.
\<close>

theorem out_of_date_cleared_only_by_rebuild_or_present:
  assumes "(x, r, True, False) \<in> set (swapchain_run a xs (sc, w))"
  shows "((\<exists>config. x = Op_Create config \<or> x = Op_Recreate config) \<and> r = Some VK_SUCCESS) \<or>
         (\<exists>drv. x = Op_Present drv \<and> drv \<noteq> VK_ERROR_OUT_OF_DATE_KHR \<and>
                drv \<noteq> VK_SUBOPTIMAL_KHR \<and> r = Some drv)"
  using assms
proof (induction xs arbitrary: sc w)
  case Nil
  then show ?case by simp
next
  case (Cons y ys)
  show ?case
  proof (cases "swapchain_step a y (sc, w)")
    case (Inl e)
    with Cons.prems show ?thesis by simp
  next
    case (Inr res)
    obtain r1 sc1 w1 where res: "res = (r1, sc1, w1)" by (metis prod_cases3)
    from Cons.prems Inr res
    consider "x = y" "r = r1" "out_of_date sc" "\<not> out_of_date sc1"
      | "(x, r, True, False) \<in> set (swapchain_run a ys (sc1, w1))"
      by auto
    then show ?thesis
    proof cases
      case 1
      with swapchain_step_clears_flag [of a y sc w r1 sc1 w1] Inr res show ?thesis by simp
    next
      case 2
      then show ?thesis by (rule Cons.IH)
    qed
  qed
qed

theorem out_of_date_cleared_only_by_rebuild_or_present_witness:
  "(Op_Present VK_ERROR_DEVICE_LOST, Some VK_ERROR_DEVICE_LOST, True, False) \<in>
     set (swapchain_run assert_default
            [Op_Acquire VK_SUBOPTIMAL_KHR 1, Op_Present VK_ERROR_DEVICE_LOST]
            (swapchain_example, world_example [])) \<and>
   VK_ERROR_DEVICE_LOST \<noteq> VK_ERROR_OUT_OF_DATE_KHR \<and> VK_ERROR_DEVICE_LOST \<noteq> VK_SUBOPTIMAL_KHR"
proof -
  have s: "(Op_Present VK_ERROR_DEVICE_LOST, Some VK_ERROR_DEVICE_LOST, True, False) \<in>
     set (swapchain_run assert_default
            [Op_Acquire VK_SUBOPTIMAL_KHR 1, Op_Present VK_ERROR_DEVICE_LOST]
            (swapchain_example, world_example []))"
    by (simp add: ve_swapchain_acquire_next_image_def ve_swapchain_present_def VE_ASSERT_def
        world_example_def swapchain_example_def swapchain_zero_def)
  from out_of_date_cleared_only_by_rebuild_or_present [OF s] show ?thesis
    using s by simp
qed

text \<open>
  C1 as stated fails: a present that the driver answers with \<open>VK_SUCCESS\<close> clears the
  flag, and no chain has been rebuilt.
\<close>

theorem present_clears_out_of_date:
  "swapchain_step assert_default (Op_Present VK_SUCCESS)
     (swapchain_example\<lparr>out_of_date := True\<rparr>, world_example []) =
   Inr (Some VK_SUCCESS, swapchain_example\<lparr>out_of_date := False\<rparr>, world_example [])"
  by (simp add: ve_swapchain_present_def VE_ASSERT_def world_example_def)

section \<open>Command buffers: begin\<close>

lemma ve_command_buffer_begin_recording:
  assumes "ve_command_buffer_begin a drv cmd flags = Inr (VK_SUCCESS, c')"
  shows "is_recording c'"
  using assms
  by (auto simp: ve_command_buffer_begin_def split: if_splits option.splits)

lemma ve_command_buffer_begin_frame_recording:
  assumes "ve_command_buffer_begin_frame a drv ty (g, w) = Inr (Some c', g')"
  shows "is_recording c'"
proof -
  from assms obtain cmd where gc: "ve_command_buffer_get_current g w ty = Inr (Some cmd)"
    by (auto simp: ve_command_buffer_begin_frame_def split: sum.splits option.splits)
  show ?thesis
  proof (cases "is_recording cmd")
    case True
    with assms gc show ?thesis by (simp add: ve_command_buffer_begin_frame_def)
  next
    case False
    with assms gc obtain r where "ve_command_buffer_begin a drv (Some cmd) 1 = Inr (r, c')" "r = 0"
      by (auto simp: ve_command_buffer_begin_frame_def Let_def split: sum.splits if_splits)
    then show ?thesis using ve_command_buffer_begin_recording by simp
  qed
qed

text \<open>
  C9, as the code has it. \<open>ve_command_buffer_begin\<close> on a recording buffer fails its
  assertion: the process is aborted, unless the assert handler says to continue, and then
  the driver is called all the same and its result returned with the buffer still
  recording. A begin that returns \<open>VK_SUCCESS\<close> leaves the buffer recording.
  \<open>ve_command_buffer_begin_frame\<close> does not fail on a current buffer that is already
  recording: it returns that buffer, unchanged, as it does after a successful begin; every
  buffer it returns is recording.
\<close>

theorem command_buffer_begin_contract:
  "(is_recording c \<longrightarrow>
      ve_command_buffer_begin a drv (Some c) flags =
        (if ve_assert_handle a then Inr (drv, c) else Inl AssertFatal)) \<and>
   (ve_command_buffer_begin a drv cmd flags = Inr (VK_SUCCESS, c') \<longrightarrow> is_recording c') \<and>
   (ve_command_buffer_get_current g w ty = Inr (Some c) \<longrightarrow> is_recording c \<longrightarrow>
      ve_command_buffer_begin_frame a drv ty (g, w) = Inr (Some c, g)) \<and>
   (ve_command_buffer_begin_frame a drv ty (g, w) = Inr (Some c'', g') \<longrightarrow> is_recording c'')"
proof -
  have 1: "is_recording c \<longrightarrow>
      ve_command_buffer_begin a drv (Some c) flags =
        (if ve_assert_handle a then Inr (drv, c) else Inl AssertFatal)"
    by (auto simp: ve_command_buffer_begin_def VE_ASSERT_def)
  have 3: "ve_command_buffer_get_current g w ty = Inr (Some c) \<longrightarrow> is_recording c \<longrightarrow>
      ve_command_buffer_begin_frame a drv ty (g, w) = Inr (Some c, g)"
    by (simp add: ve_command_buffer_begin_frame_def)
  from 1 3 ve_command_buffer_begin_recording [of a drv cmd flags c']
    ve_command_buffer_begin_frame_recording [of a drv ty g w c'' g']
  show ?thesis by blast
qed

lemmas command_eval_defs =
  ve_command_buffer_begin_frame_def ve_command_buffer_get_current_def
  ve_command_buffer_begin_def ve_vulkan_get_current_frame_def commands_example_def
  buffer_example_def world_example_def assert_default_def VE_ASSERT_def Let_def

theorem command_buffer_begin_contract_witness:
  "is_recording (buffer_example True) \<and>
   ve_command_buffer_begin assert_default VK_SUCCESS (Some (buffer_example True)) 1 =
     Inl AssertFatal \<and>
   ve_command_buffer_begin assert_default VK_SUCCESS (Some (buffer_example False)) 1 =
     Inr (VK_SUCCESS, buffer_example True) \<and>
   ve_command_buffer_get_current commands_example (world_example []) 0 =
     Inr (Some (buffer_example True)) \<and>
   ve_command_buffer_begin_frame assert_default VK_SUCCESS 0 (commands_example, world_example []) =
     Inr (Some (buffer_example True), commands_example)"
proof -
  have r: "is_recording (buffer_example True)" by (simp add: buffer_example_def)
  have b: "ve_command_buffer_begin assert_default VK_SUCCESS (Some (buffer_example False)) 1 =
     Inr (VK_SUCCESS, buffer_example True)"
    by (simp add: command_eval_defs)
  have g: "ve_command_buffer_get_current commands_example (world_example []) 0 =
     Inr (Some (buffer_example True))"
    by (simp add: command_eval_defs)
  have h: "\<not> ve_assert_handle assert_default" by (simp add: assert_default_def)
  from command_buffer_begin_contract [of "buffer_example True" assert_default VK_SUCCESS 1
      "Some (buffer_example False)" "buffer_example True" commands_example "world_example []" 0
      "buffer_example True" commands_example] r b g h
  show ?thesis by simp
qed

text \<open>
  C9 as stated fails: on a buffer that is already recording, \<open>ve_command_buffer_begin_frame\<close>
  returns the buffer as it does on success, and nothing fails.
\<close>

theorem begin_frame_tolerates_recording:
  "is_recording (buffer_example True) \<and>
   ve_command_buffer_begin_frame assert_default VK_SUCCESS 0 (commands_example, world_example []) =
     Inr (Some (buffer_example True), commands_example)"
  by (simp add: command_eval_defs)

end
